theory Spec2Isabelle
  imports Complex_Main
begin

section \<open>Data model of the mind-map editor (src/src/App.tsx)\<close>

text \<open>
  In the editor proper (selection, edges, history, pointer gestures, viewport) JavaScript
  numbers are modelled as \<open>real\<close> where they are coordinates, sizes or scale factors
  (the idealisation of IEEE doubles without rounding, NaN or infinities) and as \<open>int\<close>
  where they are identifiers. The label layout, the size keys and the loader, whose
  results turn on rounding and on NaN, work on JavaScript numbers proper (\<open>jsnum\<close>
  below). A JavaScript string is the list of its UTF-16 code units; \<open>str\<close> turns an
  ASCII literal into that list. A JavaScript \<open>Set\<close> of numbers is the list of its
  members in insertion order, without duplicates; \<open>Array.from\<close> of such a set is that
  list.
\<close>

type_synonym jsstring = "nat list"

definition str :: "string \<Rightarrow> jsstring" where
  "str cs = map of_char cs"

record MindNode =
  n_id :: int
  n_label :: jsstring
  n_x :: real
  n_y :: real
  n_w :: real
  n_h :: real
  n_strokeColor :: string
  n_fillColor :: "string option"
  n_bold :: "bool option"

record Link =
  e_id :: int
  source :: int
  target :: int
  e_label :: "jsstring option"
  dashed :: "bool option"

record Point =
  pt_x :: real
  pt_y :: real

record Snapshot =
  s_nodes :: "MindNode list"
  s_edges :: "Link list"
  s_pan :: Point
  s_scale :: real
  s_selectedId :: "int option"
  s_selectedIds :: "int list"
  s_selectedEdgeIds :: "int list"

record Rect =
  r_left :: real
  r_top :: real
  r_width :: real
  r_height :: real

datatype phase = Idle | Pending | Active

record Linking =
  l_phase :: phase
  l_sourceId :: "int option"
  l_x :: real
  l_y :: real
  l_startX :: real
  l_startY :: real

record Marquee =
  m_active :: bool
  m_x1 :: real
  m_y1 :: real
  m_x2 :: real
  m_y2 :: real

record PinchStart =
  p_d :: real
  p_scale :: real
  p_panX :: real
  p_panY :: real
  p_cx :: real
  p_cy :: real

record StartPos =
  sp_id :: int
  sp_x :: real
  sp_y :: real

text \<open>
  The component's state: the \<open>useState\<close> cells, the \<open>useRef\<close> cells, and the
  bounding rectangle of the drawing surface (\<open>None\<close> while \<open>svgRef.current\<close> is
  null). Every handler is a function from the state of the render it runs in to the
  state after its updates have been committed.
\<close>

record state =
  nodes :: "MindNode list"
  edges :: "Link list"
  selectedId :: "int option"
  selectedIds :: "int list"
  selectedEdgeIds :: "int list"
  pan :: Point
  scale :: real
  shiftTabPath :: "int list option"
  shiftTabIndex :: int
  svgRect :: "Rect option"
  draggingNodeId :: "int option"
  dragOffset :: Point
  somethingMoved :: bool
  groupDragging :: bool
  groupStart :: Point
  groupStartPositions :: "StartPos list"
  panning :: bool
  panStart :: Point
  panAtStart :: Point
  activeTouches :: "(int \<times> Point) list"
  pinchStart :: "PinchStart option"
  marquee :: Marquee
  editingId :: "int option"
  linking :: Linking
  freshTyping :: bool
  undoStack :: "Snapshot list"
  redoStack :: "Snapshot list"

text \<open>
  What a handler can end in besides a state: a thrown \<open>TypeError\<close>, or a selection
  set to \<open>undefined\<close>, a value the typed state has no place for.
\<close>

datatype error = TypeError | UndefinedSelection

subsection \<open>Constants and utilities\<close>

definition BASE_W :: real where "BASE_W = 120"
definition BASE_H :: real where "BASE_H = 64"
definition DRAG_THRESHOLD :: real where "DRAG_THRESHOLD = 16"
definition CHILD_RADIUS :: real where "CHILD_RADIUS = 160"
definition GOLDEN_ANGLE :: real where "GOLDEN_ANGLE = pi * (3 - sqrt 5)"

definition clamp :: "real \<Rightarrow> real \<Rightarrow> real \<Rightarrow> real" where
  "clamp v a b = max a (min b v)"

definition hypot :: "real \<Rightarrow> real \<Rightarrow> real" where
  "hypot a b = sqrt (a * a + b * b)"

definition distPointToSeg :: "real \<Rightarrow> real \<Rightarrow> real \<Rightarrow> real \<Rightarrow> real \<Rightarrow> real \<Rightarrow> real" where
  "distPointToSeg ptx pty x1 y1 x2 y2 =
     (let vx = x2 - x1; vy = y2 - y1;
          wx = ptx - x1; wy = pty - y1;
          len2 = (if vx * vx + vy * vy = 0 then 1 / 1000000 else vx * vx + vy * vy);
          t = max 0 (min 1 ((wx * vx + wy * vy) / len2));
          cx = x1 + t * vx; cy = y1 + t * vy
      in hypot (ptx - cx) (pty - cy))"

definition rectRadius :: "MindNode \<Rightarrow> real" where
  "rectRadius n = max (n_w n) (n_h n) / 2"

text \<open>\<open>new Set(xs)\<close>: the members in the order of their first occurrence.\<close>

fun new_Set :: "int list \<Rightarrow> int list" where
  "new_Set [] = []"
| "new_Set (a # as) = a # new_Set (filter (\<lambda>b. b \<noteq> a) as)"

subsection \<open>Selection helpers\<close>

definition selectOnly :: "int \<Rightarrow> state \<Rightarrow> state" where
  "selectOnly i s =
     s\<lparr>shiftTabPath := None, shiftTabIndex := 0,
       selectedId := Some i, selectedIds := [i], selectedEdgeIds := [],
       freshTyping := True\<rparr>"

definition clearSelection :: "state \<Rightarrow> state" where
  "clearSelection s =
     s\<lparr>selectedId := None, selectedIds := [], selectedEdgeIds := [], freshTyping := True\<rparr>"

definition selectFromArray :: "int list \<Rightarrow> state \<Rightarrow> state" where
  "selectFromArray ids s =
     s\<lparr>selectedId := (case ids of [] \<Rightarrow> None | i # _ \<Rightarrow> Some i),
       selectedIds := new_Set ids, selectedEdgeIds := [], freshTyping := True\<rparr>"

subsection \<open>Graph store queries\<close>

definition findNode :: "int \<Rightarrow> state \<Rightarrow> MindNode option" where
  "findNode i s = find (\<lambda>n. n_id n = i) (nodes s)"

text \<open>
  \<open>isPositionFree(x, y, parentId?)\<close>: the optional parent is \<open>None\<close> when the
  argument is omitted; the test \<open>parentId && ...\<close> is false for the parent id 0.
\<close>

definition isPositionFree :: "real \<Rightarrow> real \<Rightarrow> int option \<Rightarrow> state \<Rightarrow> bool" where
  "isPositionFree cx cy parentId s =
     (list_all (\<lambda>n. Some (n_id n) = parentId \<or>
          \<not> hypot (n_x n - cx) (n_y n - cy) < rectRadius n + max BASE_W BASE_H / 2 + 8) (nodes s)
      \<and> list_all (\<lambda>e.
          (parentId \<noteq> None \<and> parentId \<noteq> Some 0 \<and>
             (Some (source e) = parentId \<or> Some (target e) = parentId)) \<or>
          (case (findNode (source e) s, findNode (target e) s) of
             (Some a, Some b) \<Rightarrow>
               \<not> distPointToSeg cx cy (n_x a) (n_y a) (n_x b) (n_y b) < max BASE_W BASE_H / 2 + 6
           | _ \<Rightarrow> True)) (edges s))"

definition connects :: "int \<Rightarrow> int \<Rightarrow> Link \<Rightarrow> bool" where
  "connects a b ed = ((source ed = a \<and> target ed = b) \<or> (source ed = b \<and> target ed = a))"

text \<open>
  \<open>ensureEdge(a, b)\<close>. The new edge's id is \<open>Date.now()\<close>, the argument \<open>now\<close>.
  The existence test reads the edges of the render the handler runs in; the program calls
  \<open>ensureEdge\<close> once per pointer event, so these are the edges of the state.
\<close>

definition ensureEdge :: "int \<Rightarrow> int \<Rightarrow> int \<Rightarrow> state \<Rightarrow> state" where
  "ensureEdge a b now s =
     (if a = b then s
      else if list_ex (connects a b) (edges s) then s
      else s\<lparr>edges := edges s @ [\<lparr>e_id = now, source = a, target = b, e_label = None, dashed = None\<rparr>]\<rparr>)"

definition getParentId :: "int \<Rightarrow> state \<Rightarrow> int option" where
  "getParentId childId s = map_option source (find (\<lambda>ed. target ed = childId) (edges s))"

definition getChildrenOf :: "int \<Rightarrow> state \<Rightarrow> int list" where
  "getChildrenOf parentId s = sort (map target (filter (\<lambda>e. source e = parentId) (edges s)))"

subsection \<open>History\<close>

definition snapshot :: "state \<Rightarrow> Snapshot" where
  "snapshot s =
     \<lparr>s_nodes = nodes s, s_edges = edges s, s_pan = pan s, s_scale = scale s,
      s_selectedId = selectedId s, s_selectedIds = selectedIds s,
      s_selectedEdgeIds = selectedEdgeIds s\<rparr>"

text \<open>
  \<open>cloneSnapshot\<close> is \<open>JSON.parse(JSON.stringify(s))\<close>. \<open>JSON.stringify\<close> writes
  NaN and the infinities as \<open>null\<close> and leaves out a key whose value is \<open>undefined\<close>;
  a finite number is written with the digits that read back as the same double, and a
  key that was left out reads as \<open>undefined\<close> again. The snapshots of this model hold
  finite numbers only and record an \<open>undefined\<close> or missing optional field alike as
  \<open>None\<close>, so on them the round trip returns an equal, unshared copy. A snapshot of a
  store that holds NaN (a node loaded without \<open>x\<close>) is outside this type: its copy has
  \<open>null\<close> in that place.
\<close>

definition cloneSnapshot :: "Snapshot \<Rightarrow> Snapshot" where
  "cloneSnapshot sn = sn"

definition pushHistory :: "state \<Rightarrow> state" where
  "pushHistory s = s\<lparr>undoStack := cloneSnapshot (snapshot s) # undoStack s, redoStack := []\<rparr>"

definition restore :: "Snapshot \<Rightarrow> state \<Rightarrow> state" where
  "restore sn s =
     s\<lparr>nodes := s_nodes sn, edges := s_edges sn, pan := s_pan sn, scale := s_scale sn,
       selectedId := s_selectedId sn, selectedIds := new_Set (s_selectedIds sn),
       selectedEdgeIds := new_Set (s_selectedEdgeIds sn)\<rparr>"

text \<open>The stacks are arrays with \<open>push\<close>/\<open>pop\<close> at the end; here the head is the top.\<close>

definition undo :: "state \<Rightarrow> state" where
  "undo s =
     (case undoStack s of
        [] \<Rightarrow> s
      | sn # rest \<Rightarrow>
          restore sn (s\<lparr>undoStack := rest, redoStack := cloneSnapshot (snapshot s) # redoStack s\<rparr>))"

definition redo :: "state \<Rightarrow> state" where
  "redo s =
     (case redoStack s of
        [] \<Rightarrow> s
      | sn # rest \<Rightarrow>
          restore sn (s\<lparr>redoStack := rest, undoStack := cloneSnapshot (snapshot s) # undoStack s\<rparr>))"

subsection \<open>Adding and removing\<close>

definition nextId :: "state \<Rightarrow> int" where
  "nextId s = (case map n_id (nodes s) of [] \<Rightarrow> 1 | i # is \<Rightarrow> fold max is i + 1)"

text \<open>
  The placement loop of \<open>addChild\<close>: \<open>i\<close> counts the 96 attempts; the last point tried
  is kept when none is free.
\<close>

function childSpiral :: "state \<Rightarrow> int \<Rightarrow> MindNode \<Rightarrow> nat \<Rightarrow> real \<Rightarrow> real \<Rightarrow> Point \<Rightarrow> Point" where
  "childSpiral s parentId parent i angle radius p =
     (if i < 96 then
        (let cx = n_x parent + cos angle * radius;
             cy = n_y parent + sin angle * radius
         in if isPositionFree cx cy (Some parentId) s then \<lparr>pt_x = cx, pt_y = cy\<rparr>
            else childSpiral s parentId parent (i + 1) (angle + GOLDEN_ANGLE)
                   (if i mod 8 = 7 then radius + 24 else radius) \<lparr>pt_x = cx, pt_y = cy\<rparr>)
      else p)"
  by pat_completeness auto
termination
  by (relation "measure (\<lambda>(s, parentId, parent, i, angle, radius, p). 96 - i)") auto

text \<open>
  \<open>addChild(parentId)\<close> returns the id it answers with and the new state. The deferred
  \<open>bringBoxIntoView\<close> (a zero-delay timer) is a later event and not part of the call.
\<close>

definition addChild :: "int \<Rightarrow> int \<Rightarrow> state \<Rightarrow> int \<times> state" where
  "addChild parentId now s =
     (case findNode parentId s of
        None \<Rightarrow> (parentId, s)
      | Some parent \<Rightarrow>
          (let s1 = pushHistory s;
               newId = nextId s;
               p = childSpiral s parentId parent 0
                     (real (length (getChildrenOf parentId s)) * GOLDEN_ANGLE) CHILD_RADIUS
                     \<lparr>pt_x = n_x parent, pt_y = n_y parent\<rparr>;
               child = \<lparr>n_id = newId, n_label = [], n_x = pt_x p, n_y = pt_y p,
                        n_w = BASE_W, n_h = BASE_H, n_strokeColor = n_strokeColor parent,
                        n_fillColor = n_fillColor parent, n_bold = Some False\<rparr>
           in (newId,
               s1\<lparr>nodes := nodes s1 @ [child],
                  edges := edges s1 @ [\<lparr>e_id = now, source = parentId, target = newId,
                                        e_label = None, dashed = None\<rparr>]\<rparr>)))"

definition removeEdges :: "int list \<Rightarrow> state \<Rightarrow> state" where
  "removeEdges ids s =
     (if ids = [] then s
      else (let s1 = pushHistory s
            in s1\<lparr>edges := filter (\<lambda>e. e_id e \<notin> set ids) (edges s1), selectedEdgeIds := []\<rparr>))"

definition removeNodes :: "int list \<Rightarrow> state \<Rightarrow> state" where
  "removeNodes ids s =
     (if ids = [] then s
      else
        (let s1 = pushHistory s;
             nextSelection =
               (case ids of
                  [victim] \<Rightarrow>
                    (case getParentId victim s of
                       Some parent \<Rightarrow> if parent \<notin> set ids then Some parent else None
                     | None \<Rightarrow> None)
                | _ \<Rightarrow> None);
             s2 = s1\<lparr>nodes := filter (\<lambda>n. n_id n \<notin> set ids) (nodes s1),
                     edges := filter (\<lambda>e. source e \<notin> set ids \<and> target e \<notin> set ids) (edges s1)\<rparr>
         in case nextSelection of
              Some p \<Rightarrow> s2\<lparr>selectedId := Some p, selectedIds := [p], selectedEdgeIds := []\<rparr>
            | None \<Rightarrow> clearSelection s2))"

subsection \<open>Viewport\<close>

text \<open>
  \<open>toWorld\<close> takes client coordinates; \<open>toScreen\<close> answers in the coordinates of
  the drawing surface (client coordinates minus the surface's \<open>left\<close>/\<open>top\<close>).
\<close>

definition toWorld :: "real \<Rightarrow> real \<Rightarrow> state \<Rightarrow> Point" where
  "toWorld clientX clientY s =
     (case svgRect s of
        None \<Rightarrow> \<lparr>pt_x = 0, pt_y = 0\<rparr>
      | Some rect \<Rightarrow>
          \<lparr>pt_x = (clientX - r_left rect - pt_x (pan s)) / scale s,
           pt_y = (clientY - r_top rect - pt_y (pan s)) / scale s\<rparr>)"

definition toScreen :: "real \<Rightarrow> real \<Rightarrow> state \<Rightarrow> Point" where
  "toScreen wx wy s = \<lparr>pt_x = pt_x (pan s) + wx * scale s, pt_y = pt_y (pan s) + wy * scale s\<rparr>"

definition bringBoxIntoView :: "real \<Rightarrow> real \<Rightarrow> real \<Rightarrow> real \<Rightarrow> real \<Rightarrow> state \<Rightarrow> state" where
  "bringBoxIntoView cx cy bw bh margin s =
     (case svgRect s of
        None \<Rightarrow> s
      | Some rect \<Rightarrow>
          (let left = toScreen (cx - bw / 2) (cy - bh / 2) s;
               right = toScreen (cx + bw / 2) (cy + bh / 2) s;
               x0 = pt_x (pan s); y0 = pt_y (pan s);
               x1 = (if pt_x left < margin then x0 + (margin - pt_x left) else x0);
               x2 = (if pt_x right > r_width rect - margin
                     then x1 - (pt_x right - (r_width rect - margin)) else x1);
               y1 = (if pt_y left < margin then y0 + (margin - pt_y left) else y0);
               y2 = (if pt_y right > r_height rect - margin
                     then y1 - (pt_y right - (r_height rect - margin)) else y1)
           in if x2 \<noteq> x0 \<or> y2 \<noteq> y0 then s\<lparr>pan := \<lparr>pt_x = x2, pt_y = y2\<rparr>\<rparr> else s))"

record WheelEv =
  we_clientX :: real
  we_clientY :: real
  we_deltaX :: real
  we_deltaY :: real
  we_shiftKey :: bool

text \<open>
  \<open>onWheelSvg\<close>. The non-null assertion on \<open>svgRef.current\<close> makes the zoom branch
  throw when the surface is not mounted.
\<close>

definition onWheelSvg :: "WheelEv \<Rightarrow> state \<Rightarrow> error + state" where
  "onWheelSvg e s =
     (if \<not> we_shiftKey e then
        (let zoomIntensity = 0.0015;
             factor = exp (- we_deltaY e * zoomIntensity);
             newScale = clamp (scale s * factor) 0.3 3
         in case svgRect s of
              None \<Rightarrow> Inl TypeError
            | Some rect \<Rightarrow>
                (let mx = we_clientX e - r_left rect;
                     my = we_clientY e - r_top rect;
                     wx = (mx - pt_x (pan s)) / scale s;
                     wy = (my - pt_y (pan s)) / scale s
                 in Inr (s\<lparr>pan := \<lparr>pt_x = mx - wx * newScale, pt_y = my - wy * newScale\<rparr>,
                           scale := newScale\<rparr>)))
      else Inr (s\<lparr>pan := \<lparr>pt_x = pt_x (pan s) - we_deltaX e, pt_y = pt_y (pan s) - we_deltaY e\<rparr>\<rparr>))"

subsection \<open>Keyboard\<close>

text \<open>
  The branches of the \<open>keydown\<close> handler are given one function each. Every branch is
  behind the handler's first test, \<open>editingId != null\<close>, which is part of each
  function; the test on the focused DOM element is outside the model.
\<close>

text \<open>
  \<open>buildRootPath\<close>: the \<open>while\<close> loop follows parent edges and does not end when
  they form a cycle, so the loop is a partial function; \<open>None\<close> is "never returns".
\<close>

partial_function (option) rootPathLoop :: "state \<Rightarrow> int list \<Rightarrow> int option \<Rightarrow> int list option" where
  "rootPathLoop s up cur =
     (case cur of
        None \<Rightarrow> Some up
      | Some c \<Rightarrow> rootPathLoop s (up @ [c]) (getParentId c s))"

definition buildRootPath :: "int \<Rightarrow> state \<Rightarrow> int list option" where
  "buildRootPath startId s = map_option rev (rootPathLoop s [] (Some startId))"

text \<open>
  The continuation of the Shift+Tab branch once the path and the index are known. A read
  of \<open>path[idx]\<close> outside the array is \<open>undefined\<close>; the selection would then hold
  \<open>undefined\<close>, which is the result \<open>Inl UndefinedSelection\<close>.
\<close>

definition shiftTabStep :: "int list \<Rightarrow> int \<Rightarrow> state \<Rightarrow> error + state" where
  "shiftTabStep path idx0 s =
     (let len = int (length path)
      in if \<not> 0 < idx0 \<and> \<not> idx0 < len - 1 then Inr s
         else
           (let idx = (if 0 < idx0 then idx0 - 1 else idx0 + 1)
            in if 0 \<le> idx \<and> idx < len then
                 (let nextId = path ! nat idx;
                      s1 = selectOnly nextId (s\<lparr>shiftTabIndex := idx\<rparr>)
                  in case findNode nextId s of
                       Some n \<Rightarrow> Inr (bringBoxIntoView (n_x n) (n_y n) (n_w n) (n_h n) 24 s1)
                     | None \<Rightarrow> Inr s1)
               else Inl UndefinedSelection))"

text \<open>
  Shift+Tab (no other modifier). Outside its guard the branch is not taken and no later
  branch matches a Tab with Shift alone, so the state is returned as it is.
\<close>

definition keyShiftTab :: "state \<Rightarrow> (error + state) option" where
  "keyShiftTab s =
     (if editingId s \<noteq> None then Some (Inr s)
      else
        (case selectedId s of
           None \<Rightarrow> Some (Inr s)
         | Some sel \<Rightarrow>
             if length (selectedIds s) \<noteq> 1 then Some (Inr s)
             else
               (case (case shiftTabPath s of
                        Some p \<Rightarrow> if sel \<in> set p then Some (p, shiftTabIndex s)
                                  else map_option (\<lambda>q. (q, int (length q) - 1)) (buildRootPath sel s)
                      | None \<Rightarrow> map_option (\<lambda>q. (q, int (length q) - 1)) (buildRootPath sel s)) of
                  None \<Rightarrow> None
                | Some (path, idx0) \<Rightarrow>
                    Some (shiftTabStep path idx0 (s\<lparr>shiftTabPath := Some path, shiftTabIndex := idx0\<rparr>)))))"

subsection \<open>Pointer gestures\<close>

record PointerEv =
  pe_pointerId :: int
  pe_clientX :: real
  pe_clientY :: real
  pe_shiftKey :: bool

text \<open>
  \<open>pushHistory\<close> called after the handler has already queued state updates: the
  snapshot is taken from the values of the render the handler closed over (\<open>r\<close>),
  the stacks are the current ones.
\<close>

definition pushHistoryOf :: "state \<Rightarrow> state \<Rightarrow> state" where
  "pushHistoryOf r s = s\<lparr>undoStack := cloneSnapshot (snapshot r) # undoStack s, redoStack := []\<rparr>"

text \<open>\<open>Map.set\<close> and \<open>Map.delete\<close> on the map of active touches, in insertion order.\<close>

fun touchSet :: "int \<Rightarrow> Point \<Rightarrow> (int \<times> Point) list \<Rightarrow> (int \<times> Point) list" where
  "touchSet k v [] = [(k, v)]"
| "touchSet k v ((k', v') # kvs) = (if k' = k then (k, v) # kvs else (k', v') # touchSet k v kvs)"

definition touchDelete :: "int \<Rightarrow> (int \<times> Point) list \<Rightarrow> (int \<times> Point) list" where
  "touchDelete k kvs = filter (\<lambda>kv. fst kv \<noteq> k) kvs"

definition isPointInNode :: "MindNode \<Rightarrow> real \<Rightarrow> real \<Rightarrow> bool" where
  "isPointInNode n px py = (\<bar>px - n_x n\<bar> \<le> n_w n / 2 \<and> \<bar>py - n_y n\<bar> \<le> n_h n / 2)"

text \<open>\<open>findNodeAt(x, y, excludeId)\<close>; the test \<open>excludeId && ...\<close> is false for the id 0.\<close>

definition findNodeAt :: "real \<Rightarrow> real \<Rightarrow> int option \<Rightarrow> state \<Rightarrow> int option" where
  "findNodeAt px py excludeId s =
     map_option n_id
       (find (\<lambda>n. \<not> (excludeId \<noteq> None \<and> excludeId \<noteq> Some 0 \<and> Some (n_id n) = excludeId)
                  \<and> isPointInNode n px py) (nodes s))"

definition idleLinking :: Linking where
  "idleLinking = \<lparr>l_phase = Idle, l_sourceId = None, l_x = 0, l_y = 0, l_startX = 0, l_startY = 0\<rparr>"

text \<open>
  \<open>onPointerDownNode(e, id)\<close>. The second component tells whether the event goes on to
  the surface's own \<open>pointerdown\<close> handler (it does unless \<open>stopPropagation\<close> ran).
  A \<open>find(...)!\<close> that finds nothing throws at the following field read.
\<close>

definition onPointerDownNode :: "PointerEv \<Rightarrow> int \<Rightarrow> int \<Rightarrow> state \<Rightarrow> error + (state \<times> bool)" where
  "onPointerDownNode e i now s =
     (if editingId s \<noteq> None then Inr (s, True)
      else if pe_shiftKey e then
        (if selectedId s \<noteq> None \<and> selectedId s \<noteq> Some i
         then Inr (selectOnly i (ensureEdge (the (selectedId s)) i now (pushHistory s)), False)
         else (case findNode i s of
                 None \<Rightarrow> Inl TypeError
               | Some src \<Rightarrow>
                   Inr ((selectOnly i s)\<lparr>linking :=
                          \<lparr>l_phase = Pending, l_sourceId = Some i, l_x = n_x src, l_y = n_y src,
                           l_startX = n_x src, l_startY = n_y src\<rparr>\<rparr>, False)))
      else if l_phase (linking s) \<noteq> Idle then Inr (s, True)
      else
        (let wasInSelection = (i \<in> set (selectedIds s));
             s1 = s\<lparr>freshTyping := True\<rparr>;
             s2 = (if \<not> wasInSelection then selectOnly i s1 else s1);
             p = toWorld (pe_clientX e) (pe_clientY e) s
         in if length (selectedIds s) > 1 then
              (case those (map (\<lambda>nid. map_option
                                   (\<lambda>n. \<lparr>sp_id = nid, sp_x = n_x n, sp_y = n_y n\<rparr>) (findNode nid s))
                               (selectedIds s)) of
                 None \<Rightarrow> Inl TypeError
               | Some starts \<Rightarrow>
                   Inr (s2\<lparr>groupDragging := True, groupStart := p,
                           groupStartPositions := starts\<rparr>, True))
            else
              (case findNode i s of
                 None \<Rightarrow> Inl TypeError
               | Some node \<Rightarrow>
                   Inr (s2\<lparr>draggingNodeId := Some i,
                           dragOffset := \<lparr>pt_x = n_x node - pt_x p, pt_y = n_y node - pt_y p\<rparr>,
                           somethingMoved := False\<rparr>, True))))"

definition getCentroidAndDistance :: "Point \<Rightarrow> Point \<Rightarrow> real \<times> real \<times> real" where
  "getCentroidAndDistance p0 p1 =
     ((pt_x p0 + pt_x p1) / 2, (pt_y p0 + pt_y p1) / 2,
      hypot (pt_x p1 - pt_x p0) (pt_y p1 - pt_y p0))"

definition onPointerDownSvg :: "PointerEv \<Rightarrow> state \<Rightarrow> state" where
  "onPointerDownSvg e s =
     (let touches = touchSet (pe_pointerId e) \<lparr>pt_x = pe_clientX e, pt_y = pe_clientY e\<rparr>
                      (activeTouches s);
          s1 = s\<lparr>activeTouches := touches\<rparr>;
          s2 = (case map snd touches of
                  [p0, p1] \<Rightarrow>
                    (case getCentroidAndDistance p0 p1 of
                       (cx, cy, d) \<Rightarrow>
                         s1\<lparr>pinchStart := Some \<lparr>p_d = d, p_scale = scale s, p_panX = pt_x (pan s),
                                                 p_panY = pt_y (pan s), p_cx = cx, p_cy = cy\<rparr>\<rparr>)
                | _ \<Rightarrow> s1)
      in s2\<lparr>panning := (length touches < 2),
            panStart := \<lparr>pt_x = pe_clientX e, pt_y = pe_clientY e\<rparr>,
            panAtStart := pan s\<rparr>)"

text \<open>A press on a node: the node's handler, then the surface's when the event bubbles.\<close>

definition pointerDownOnNode :: "PointerEv \<Rightarrow> int \<Rightarrow> int \<Rightarrow> state \<Rightarrow> error + state" where
  "pointerDownOnNode e i now s =
     (case onPointerDownNode e i now s of
        Inl err \<Rightarrow> Inl err
      | Inr (s1, bubbles) \<Rightarrow> Inr (if bubbles then onPointerDownSvg e s1 else s1))"

text \<open>
  The group-drag update \<open>posMap.get(n.id)!.x + dx\<close> throws for a selected node that has
  no recorded start position; \<open>new Map(...)\<close> keeps the last entry of a key.
\<close>

definition moveGroup :: "real \<Rightarrow> real \<Rightarrow> state \<Rightarrow> (MindNode list) option" where
  "moveGroup dx dy s =
     those (map (\<lambda>n. if n_id n \<in> set (selectedIds s)
                     then map_option (\<lambda>sp. n\<lparr>n_x := sp_x sp + dx, n_y := sp_y sp + dy\<rparr>)
                            (find (\<lambda>sp. sp_id sp = n_id n) (rev (groupStartPositions s)))
                     else Some n) (nodes s))"

definition onPointerMoveSvg :: "PointerEv \<Rightarrow> state \<Rightarrow> error + state" where
  "onPointerMoveSvg e s =
     (let known = (pe_pointerId e \<in> fst ` set (activeTouches s));
          s1 = (if known
                then s\<lparr>activeTouches := touchSet (pe_pointerId e)
                          \<lparr>pt_x = pe_clientX e, pt_y = pe_clientY e\<rparr> (activeTouches s)\<rparr>
                else s);
          p = toWorld (pe_clientX e) (pe_clientY e) s
      in case (if known then (case (map snd (activeTouches s1), pinchStart s1) of
                                ([p0, p1], Some ps) \<Rightarrow> Some (p0, p1, ps)
                              | _ \<Rightarrow> None)
               else None) of
           Some (p0, p1, ps) \<Rightarrow>
             (case getCentroidAndDistance p0 p1 of
                (cx, cy, d) \<Rightarrow>
                  (case svgRect s of
                     None \<Rightarrow> Inl TypeError
                   | Some rect \<Rightarrow>
                       (let sc = clamp (p_scale ps * (d / p_d ps)) 0.3 3;
                            wx0 = (p_cx ps - r_left rect - p_panX ps) / p_scale ps;
                            wy0 = (p_cy ps - r_top rect - p_panY ps) / p_scale ps
                        in Inr (s1\<lparr>scale := sc,
                                   pan := \<lparr>pt_x = (cx - r_left rect) - wx0 * sc,
                                           pt_y = (cy - r_top rect) - wy0 * sc\<rparr>\<rparr>))))
         | None \<Rightarrow>
             if m_active (marquee s) then
               Inr (s1\<lparr>marquee := (marquee s)\<lparr>m_x2 := pt_x p, m_y2 := pt_y p\<rparr>\<rparr>)
             else if l_phase (linking s) = Pending \<or> l_phase (linking s) = Active then
               (let thresholdWorld = DRAG_THRESHOLD / scale s;
                    moved = (hypot (pt_x p - l_startX (linking s)) (pt_y p - l_startY (linking s))
                               > thresholdWorld)
                in if l_phase (linking s) = Pending \<and> moved
                   then Inr (s1\<lparr>linking := (linking s)\<lparr>l_phase := Active, l_x := pt_x p, l_y := pt_y p\<rparr>\<rparr>)
                   else if l_phase (linking s) = Active
                   then Inr (s1\<lparr>linking := (linking s)\<lparr>l_x := pt_x p, l_y := pt_y p\<rparr>\<rparr>)
                   else Inr s1)
             else if groupDragging s then
               (case moveGroup (pt_x p - pt_x (groupStart s)) (pt_y p - pt_y (groupStart s)) s of
                  None \<Rightarrow> Inl TypeError
                | Some ns \<Rightarrow> Inr (s1\<lparr>somethingMoved := True, nodes := ns\<rparr>))
             else
               (case draggingNodeId s of
                  Some i \<Rightarrow>
                    Inr (s1\<lparr>nodes := map (\<lambda>n. if n_id n = i
                                              then n\<lparr>n_x := pt_x p + pt_x (dragOffset s),
                                                     n_y := pt_y p + pt_y (dragOffset s)\<rparr>
                                              else n) (nodes s),
                            somethingMoved := True\<rparr>)
                | None \<Rightarrow>
                    if panning s then
                      Inr (s1\<lparr>pan := \<lparr>pt_x = pt_x (panAtStart s) + (pe_clientX e - pt_x (panStart s)),
                                       pt_y = pt_y (panAtStart s) + (pe_clientY e - pt_y (panStart s))\<rparr>\<rparr>)
                    else Inr s1))"

text \<open>
  \<open>onPointerUpSvg\<close> (also the \<open>pointerleave\<close> handler). The snapshots it pushes are
  taken from the render it runs in, which already shows the moved nodes.
\<close>

definition onPointerUpSvg :: "PointerEv option \<Rightarrow> int \<Rightarrow> state \<Rightarrow> state" where
  "onPointerUpSvg eo now s =
     (let s1 = (case eo of
                  None \<Rightarrow> s
                | Some e \<Rightarrow>
                    (let touches = touchDelete (pe_pointerId e) (activeTouches s)
                     in s\<lparr>activeTouches := touches,
                          pinchStart := (if length touches < 2 then None else pinchStart s)\<rparr>));
          s2 = (if m_active (marquee s) then
                  (let mq = marquee s;
                       minX = min (m_x1 mq) (m_x2 mq); maxX = max (m_x1 mq) (m_x2 mq);
                       minY = min (m_y1 mq) (m_y2 mq); maxY = max (m_y1 mq) (m_y2 mq);
                       ids = map n_id (filter (\<lambda>n. n_x n \<ge> minX \<and> n_x n \<le> maxX \<and>
                                                     n_y n \<ge> minY \<and> n_y n \<le> maxY) (nodes s))
                   in (selectFromArray ids s1)\<lparr>marquee :=
                        \<lparr>m_active = False, m_x1 = 0, m_y1 = 0, m_x2 = 0, m_y2 = 0\<rparr>\<rparr>)
                else s1);
          lk = linking s;
          s3 = (if (l_phase lk = Pending \<or> l_phase lk = Active) \<and> l_sourceId lk \<noteq> None then
                  (let src = the (l_sourceId lk);
                       targetId = findNodeAt (l_x lk) (l_y lk) (l_sourceId lk) s;
                       s2a = (case targetId of
                                None \<Rightarrow> s2
                              | Some tg \<Rightarrow>
                                  if tg = 0 then s2
                                  else
                                    (let s2b = (if \<not> list_ex (connects src tg) (edges s)
                                                then (pushHistoryOf s s2)\<lparr>edges := edges s2 @
                                                       [\<lparr>e_id = now, source = src, target = tg,
                                                         e_label = None, dashed = None\<rparr>]\<rparr>
                                                else s2)
                                     in selectOnly tg s2b))
                   in s2a\<lparr>linking := idleLinking\<rparr>)
                else s2);
          s4 = (if somethingMoved s then pushHistoryOf s s3 else s3)
      in s4\<lparr>draggingNodeId := None, groupDragging := False, panning := False,
            somethingMoved := False\<rparr>)"

subsection \<open>JavaScript numbers\<close>
text \<open>
  A JavaScript number: a finite double, given by the real it denotes, NaN, or an
  infinity. Negative zero is identified with zero; the code modelled on these numbers
  never divides by zero and tells the two zeros apart nowhere.
\<close>

datatype jsnum = Num real | NaN | PosInfinity | NegInfinity

text \<open>
  \<open>pow2 k\<close> is 2 to the integer power \<open>k\<close>; \<open>roundHalfEven q\<close> is the integer nearest
  to \<open>q\<close>, the even one of two that are equally near.
\<close>

definition pow2 :: "int \<Rightarrow> real" where
  "pow2 k = (if 0 \<le> k then 2 ^ nat k else 1 / 2 ^ nat (- k))"

definition roundHalfEven :: "real \<Rightarrow> int" where
  "roundHalfEven q =
     (let n = \<lfloor>q\<rfloor>; d = q - of_int n
      in if d < 1 / 2 then n else if 1 / 2 < d then n + 1 else if even n then n else n + 1)"

text \<open>
  \<open>fl x\<close> is the double that the real \<open>x\<close> rounds to (IEEE 754 binary64, round to
  nearest, ties to even): \<open>e\<close> is the exponent of \<open>x\<close>, at least -1022 so that the
  subnormal numbers lie 2^-1074 apart, \<open>u\<close> the distance between neighbouring doubles
  there, and a result of magnitude 2^1024 or more is an infinity. Every arithmetic
  operation is the exact operation followed by this rounding.
\<close>

definition fl :: "real \<Rightarrow> jsnum" where
  "fl x =
     (if x = 0 then Num 0
      else
        (let e = max \<lfloor>log 2 \<bar>x\<bar>\<rfloor> (- 1022);
             u = pow2 (e - 52);
             y = of_int (roundHalfEven (x / u)) * u
         in if 2 ^ 1024 \<le> \<bar>y\<bar> then (if 0 < x then PosInfinity else NegInfinity) else Num y))"

fun isFinite :: "jsnum \<Rightarrow> bool" where
  "isFinite (Num a) = True"
| "isFinite v = False"

fun isNeg :: "jsnum \<Rightarrow> bool" where
  "isNeg (Num a) = (a < 0)"
| "isNeg NegInfinity = True"
| "isNeg v = False"

text \<open>
  Unary minus and \<open>+\<close>, \<open>-\<close>, \<open>*\<close>, \<open>/\<close> (a zero divisor counts as +0).
\<close>

fun jsneg :: "jsnum \<Rightarrow> jsnum" where
  "jsneg (Num a) = Num (- a)"
| "jsneg PosInfinity = NegInfinity"
| "jsneg NegInfinity = PosInfinity"
| "jsneg NaN = NaN"

fun jsadd :: "jsnum \<Rightarrow> jsnum \<Rightarrow> jsnum" where
  "jsadd (Num a) (Num b) = fl (a + b)"
| "jsadd NaN v = NaN"
| "jsadd v NaN = NaN"
| "jsadd PosInfinity NegInfinity = NaN"
| "jsadd NegInfinity PosInfinity = NaN"
| "jsadd PosInfinity v = PosInfinity"
| "jsadd NegInfinity v = NegInfinity"
| "jsadd (Num a) v = v"

definition jssub :: "jsnum \<Rightarrow> jsnum \<Rightarrow> jsnum" where
  "jssub a b = jsadd a (jsneg b)"

definition jsmul :: "jsnum \<Rightarrow> jsnum \<Rightarrow> jsnum" where
  "jsmul a b =
     (case (a, b) of
        (Num x, Num y) \<Rightarrow> fl (x * y)
      | _ \<Rightarrow> if a = NaN \<or> b = NaN \<or> a = Num 0 \<or> b = Num 0 then NaN
             else if isNeg a = isNeg b then PosInfinity else NegInfinity)"

definition jsdiv :: "jsnum \<Rightarrow> jsnum \<Rightarrow> jsnum" where
  "jsdiv a b =
     (case (a, b) of
        (Num x, Num y) \<Rightarrow>
          if y = 0 then (if x = 0 then NaN else if 0 < x then PosInfinity else NegInfinity)
          else fl (x / y)
      | (Num x, v) \<Rightarrow> if v = NaN then NaN else Num 0
      | (v, Num y) \<Rightarrow> if v = NaN then NaN
                      else if isNeg v = (y < 0) then PosInfinity else NegInfinity
      | _ \<Rightarrow> NaN)"

text \<open>
  \<open>a <= b\<close>, which is false as soon as NaN is involved, and \<open>Math.max\<close> and
  \<open>Math.min\<close> of two arguments, which then are NaN.
\<close>

fun jsle :: "jsnum \<Rightarrow> jsnum \<Rightarrow> bool" where
  "jsle (Num a) (Num b) = (a \<le> b)"
| "jsle NaN v = False"
| "jsle v NaN = False"
| "jsle NegInfinity v = True"
| "jsle v PosInfinity = True"
| "jsle v w = False"

definition jsmax :: "jsnum \<Rightarrow> jsnum \<Rightarrow> jsnum" where
  "jsmax a b = (if a = NaN \<or> b = NaN then NaN else if jsle a b then b else a)"

definition jsmin :: "jsnum \<Rightarrow> jsnum \<Rightarrow> jsnum" where
  "jsmin a b = (if a = NaN \<or> b = NaN then NaN else if jsle a b then a else b)"

text \<open>
  \<open>Math.ceil\<close>, and \<open>Math.round\<close>, which rounds a half upwards: it is the floor of
  the exact sum with one half.
\<close>

fun jsceil :: "jsnum \<Rightarrow> jsnum" where
  "jsceil (Num a) = Num (of_int \<lceil>a\<rceil>)"
| "jsceil v = v"

fun jsround :: "jsnum \<Rightarrow> jsnum" where
  "jsround (Num a) = Num (of_int \<lfloor>a + 1 / 2\<rfloor>)"
| "jsround v = v"

text \<open>
  \<open>clamp\<close> on these numbers.
\<close>

definition clampNum :: "jsnum \<Rightarrow> jsnum \<Rightarrow> jsnum \<Rightarrow> jsnum" where
  "clampNum v a b = jsmax a (jsmin b v)"

text \<open>
  The doubles that the literals \<open>0.6\<close>, \<open>1.15\<close>, \<open>1.2\<close> and \<open>0.35\<close> denote.
\<close>

definition d06 :: real where "d06 = 5404319552844595 / 9007199254740992"

definition d115 :: real where "d115 = 5179139571476070 / 4503599627370496"

definition d12 :: real where "d12 = 5404319552844595 / 4503599627370496"

definition d035 :: real where "d035 = 6305039478318694 / 18014398509481984"

subsection \<open>Label layout\<close>
text \<open>
The code units matched by the regular expression class \<open>\s\<close>.
\<close>

definition is_space :: "nat \<Rightarrow> bool" where
  "is_space u =
     (u \<in> {9, 10, 11, 12, 13, 32, 160, 5760, 8232, 8233, 8239, 8287, 12288, 65279}
      \<or> (8192 \<le> u \<and> u \<le> 8202))"

text \<open>
\<open>label.split(/\s+/).filter(Boolean)\<close>: the maximal runs of non-space code units.
\<close>

fun splitWords :: "jsstring \<Rightarrow> jsstring \<Rightarrow> jsstring list" where
  "splitWords cur [] = (if cur = [] then [] else [cur])"
| "splitWords cur (c # cs) =
     (if is_space c then (if cur = [] then splitWords [] cs else cur # splitWords [] cs)
      else splitWords (cur @ [c]) cs)"

text \<open>
\<open>label.replace(/\s+/g, " ")\<close> and \<open>trim()\<close>.
\<close>

fun collapseSpaces :: "bool \<Rightarrow> jsstring \<Rightarrow> jsstring" where
  "collapseSpaces inRun [] = []"
| "collapseSpaces inRun (c # cs) =
     (if is_space c then (if inRun then collapseSpaces True cs else 32 # collapseSpaces True cs)
      else c # collapseSpaces False cs)"

definition trim :: "jsstring \<Rightarrow> jsstring" where
  "trim cs = rev (dropWhile is_space (rev (dropWhile is_space cs)))"

text \<open>
  \<open>text.length * fontSize * 0.6\<close>, two roundings. The length of a string is a whole
  number below 2^53 and needs none.
\<close>

definition approxTextWidth :: "jsstring \<Rightarrow> jsnum \<Rightarrow> jsnum" where
  "approxTextWidth text fontSize = jsmul (jsmul (Num (real (length text))) fontSize) (fl 0.6)"

definition paddingX :: jsnum where "paddingX = Num 16"

definition paddingY :: jsnum where "paddingY = Num 12"

definition maxLines :: nat where "maxLines = 3"

text \<open>
  The body of the \<open>for\<close> loop over the words inside \<open>rebuild\<close>: \<open>ls\<close> are the
  lines pushed so far, \<open>cur\<close> the line being filled (empty strings are falsy).
\<close>

fun wrapWords :: "jsnum \<Rightarrow> jsnum \<Rightarrow> jsstring list \<Rightarrow> jsstring list \<Rightarrow> jsstring \<Rightarrow> jsstring list" where
  "wrapWords baseFont width [] ls cur = (if cur = [] then ls else ls @ [cur])"
| "wrapWords baseFont width (wd # wds) ls cur =
     (let test = (if cur = [] then wd else cur @ [32] @ wd)
      in if jsle (approxTextWidth test baseFont) (jssub width (jsmul paddingX (Num 2)))
         then wrapWords baseFont width wds ls test
         else wrapWords baseFont width wds (if cur = [] then ls else ls @ [cur]) wd)"

text \<open>
  The width that a pass with more than three lines proposes:
  \<open>Math.ceil(targetCharsPerLine * baseFont * 0.6 + paddingX * 2)\<close>.
\<close>

definition retryWidth :: "jsstring \<Rightarrow> jsnum \<Rightarrow> jsnum" where
  "retryWidth label baseFont =
     (let n = length (trim (collapseSpaces False label));
          textLen = (if n = 0 then 1 else n);
          targetCharsPerLine = jsceil (jsdiv (Num (real textLen)) (Num (real maxLines)))
      in jsceil (jsadd (jsmul (jsmul targetCharsPerLine baseFont) (fl 0.6))
                       (jsmul paddingX (Num 2))))"

text \<open>
  One call of \<open>rebuild\<close>: whether it succeeded, the lines it produced and the width
  it leaves behind.
\<close>

definition rebuild :: "jsstring \<Rightarrow> jsnum \<Rightarrow> jsnum \<Rightarrow> bool \<times> jsstring list \<times> jsnum" where
  "rebuild label baseFont width =
     (let wds = splitWords [] label;
          ls = wrapWords baseFont width (if wds = [] then [label] else wds) [] []
      in if length ls > maxLines then (False, ls, jsmax width (retryWidth label baseFont))
         else (True, ls, width))"

text \<open>
  The retry loop \<open>for (let i = 0; i < 6; i++) if (rebuild()) break\<close>; the first
  argument is the number of attempts left.
\<close>

fun rebuildLoop :: "nat \<Rightarrow> jsstring \<Rightarrow> jsnum \<Rightarrow> jsstring list \<Rightarrow> jsnum \<Rightarrow> jsstring list \<times> jsnum" where
  "rebuildLoop 0 label baseFont ls width = (ls, width)"
| "rebuildLoop (Suc k) label baseFont ls width =
     (case rebuild label baseFont width of
        (ok, ls', width') \<Rightarrow>
          if ok then (ls', width') else rebuildLoop k label baseFont ls' width')"

record Layout =
  lines :: "jsstring list"
  width :: jsnum
  height :: jsnum
  lineHeight :: jsnum
  lay_paddingX :: jsnum
  lay_paddingY :: jsnum
  fontSize :: jsnum

definition layoutLabel :: "jsstring \<Rightarrow> jsnum \<Rightarrow> jsnum \<Rightarrow> Layout" where
  "layoutLabel label baseFont minW =
     (let lh = jsround (jsmul baseFont (fl 1.15));
          (ls, width0) = rebuildLoop 6 label baseFont [] (jsmax minW (Num BASE_W));
          textW = fold jsmax (map (\<lambda>t. approxTextWidth t baseFont) ls) (Num 0);
          width1 = jsmax width0 (jsceil (jsadd textW (jsmul paddingX (Num 2))));
          height1 = jsmax (Num BASE_H)
                      (jsceil (jsadd (jsmul (Num (real (length ls))) lh) (jsmul paddingY (Num 2))))
      in \<lparr>lines = (if ls = [] then [[]] else ls), width = width1, height = height1,
          lineHeight = lh, lay_paddingX = paddingX, lay_paddingY = paddingY,
          fontSize = baseFont\<rparr>)"

text \<open>
  The width the \<open>k\<close>-th wrapping pass of \<open>layoutLabel\<close> starts from: each pass hands
  the width it leaves behind to the next.
\<close>

definition attemptWidth :: "nat \<Rightarrow> jsstring \<Rightarrow> jsnum \<Rightarrow> jsnum \<Rightarrow> jsnum" where
  "attemptWidth k label baseFont minW =
     ((\<lambda>wd. snd (snd (rebuild label baseFont wd))) ^^ k) (jsmax minW (Num BASE_W))"

text \<open>
  A font size that is not a whole number, 160 + 2^-45, and the estimate of a one-letter
  label at that size.
\<close>

definition gapFont :: real where "gapFont = 160 + 1 / 2 ^ 45"

definition gapEstimate :: real where "gapEstimate = 96 + 1 / 2 ^ 46"

subsection \<open>Loading the persisted maps\<close>
text \<open>
  The loader works on whatever \<open>JSON.parse\<close> returns, so its values are JavaScript
  values rather than the typed model above: numbers may be NaN or infinite, and a field
  that is not coerced keeps the parsed value. \<open>Function\<close> stands for a built-in method
  object: reading \<open>bold\<close> from a string yields \<open>String.prototype.bold\<close>.
\<close>

datatype json =
    JNull
  | JBool bool
  | JNumber jsnum
  | JString jsstring
  | JArray "json list"
  | JObject "(string \<times> json) list"

datatype jsval = Undefined | Function | Json json

text \<open>
  The conversions between strings and numbers that \<open>Number(...)\<close> and \<open>String(...)\<close>
  rest on are built-ins of the language, not code of this program; they are parameters.
\<close>

record Builtins =
  strToNum :: "jsstring \<Rightarrow> jsnum"
  numToStr :: "jsnum \<Rightarrow> jsstring"

text \<open>
  \<open>v.k\<close> for a parsed value \<open>v\<close> other than \<open>null\<close> and one of the property names
  the loader reads (\<open>nodes\<close>, \<open>edges\<close>, \<open>id\<close>, \<open>label\<close>, \<open>x\<close>, \<open>y\<close>, \<open>w\<close>,
  \<open>h\<close>, \<open>strokeColor\<close>, \<open>fillColor\<close>, \<open>bold\<close>, \<open>source\<close>, \<open>target\<close>,
  \<open>dashed\<close>): an object's own property, else \<open>undefined\<close>. A parsed object is the
  list of its own properties, each key once.
\<close>

fun field :: "json \<Rightarrow> string \<Rightarrow> jsval" where
  "field (JObject kvs) k = (case map_of kvs k of None \<Rightarrow> Undefined | Some v \<Rightarrow> Json v)"
| "field (JString t) k = (if k = ''bold'' then Function else Undefined)"
| "field v k = Undefined"

text \<open>
  The conversion of a parsed value to a string, \<open>None\<close> when it throws a
  \<open>TypeError\<close>. An object is converted by its \<open>toString\<close> method and then its
  \<open>valueOf\<close> method. A parsed object inherits both; an own property named \<open>toString\<close>
  hides the inherited method and, coming from JSON, is never a function, while \<open>valueOf\<close>,
  inherited or hidden, yields no primitive: the conversion throws exactly when that own
  property exists. An array joins the strings of its elements with commas, \<open>null\<close>
  counting as the empty string, and throws when one of them does. (Running out of stack
  on very deep nesting is outside the model.)
\<close>

fun joinComma :: "jsstring list \<Rightarrow> jsstring" where
  "joinComma [] = []"
| "joinComma [t] = t"
| "joinComma (t # ts) = t @ [44] @ joinComma ts"

fun toStr :: "Builtins \<Rightarrow> json \<Rightarrow> jsstring option" where
  "toStr env JNull = Some (str ''null'')"
| "toStr env (JBool b) = Some (if b then str ''true'' else str ''false'')"
| "toStr env (JNumber n) = Some (numToStr env n)"
| "toStr env (JString t) = Some t"
| "toStr env (JArray vs) =
     map_option joinComma (those (map (\<lambda>v. if v = JNull then Some [] else toStr env v) vs))"
| "toStr env (JObject kvs) =
     (if map_of kvs ''toString'' = None then Some (str ''[object Object]'') else None)"

text \<open>
  \<open>String(v)\<close> and \<open>Number(v)\<close>; \<open>Number\<close> of an array or an object converts it to
  a string first, by the same two methods.
\<close>

definition String_of :: "Builtins \<Rightarrow> jsval \<Rightarrow> error + jsstring" where
  "String_of env v =
     (case v of
        Undefined \<Rightarrow> Inr (str ''undefined'')
      | Function \<Rightarrow> Inr (str ''function bold() { [native code] }'')
      | Json j \<Rightarrow> (case toStr env j of None \<Rightarrow> Inl TypeError | Some t \<Rightarrow> Inr t))"

definition Number_of :: "Builtins \<Rightarrow> jsval \<Rightarrow> error + jsnum" where
  "Number_of env v =
     (case v of
        Undefined \<Rightarrow> Inr NaN
      | Function \<Rightarrow> Inr NaN
      | Json JNull \<Rightarrow> Inr (Num 0)
      | Json (JBool b) \<Rightarrow> Inr (Num (if b then 1 else 0))
      | Json (JNumber n) \<Rightarrow> Inr n
      | Json (JString t) \<Rightarrow> Inr (strToNum env t)
      | Json j \<Rightarrow> (case toStr env j of None \<Rightarrow> Inl TypeError | Some t \<Rightarrow> Inr (strToNum env t)))"

text \<open>
\<open>Boolean(v)\<close>, which never throws.
\<close>

definition Boolean_of :: "jsval \<Rightarrow> bool" where
  "Boolean_of v =
     (case v of
        Undefined \<Rightarrow> False
      | Function \<Rightarrow> True
      | Json JNull \<Rightarrow> False
      | Json (JBool b) \<Rightarrow> b
      | Json (JNumber n) \<Rightarrow> n \<noteq> Num 0 \<and> n \<noteq> NaN
      | Json (JString t) \<Rightarrow> t \<noteq> []
      | Json (JArray vs) \<Rightarrow> True
      | Json (JObject kvs) \<Rightarrow> True)"

text \<open>
\<open>v ?? d\<close>.
\<close>

definition orElse :: "jsval \<Rightarrow> jsval \<Rightarrow> jsval" where
  "orElse v d = (if v = Undefined \<or> v = Json JNull then d else v)"

record LoadedNode =
  ld_id :: jsnum
  ld_label :: jsstring
  ld_x :: jsnum
  ld_y :: jsnum
  ld_w :: jsnum
  ld_h :: jsnum
  ld_strokeColor :: jsval
  ld_fillColor :: jsval
  ld_bold :: bool

record LoadedLink =
  lk_id :: jsnum
  lk_source :: jsnum
  lk_target :: jsnum
  lk_label :: "jsstring option"
  lk_dashed :: bool

text \<open>
Evaluation in sequence: the first thrown error ends it.
\<close>

definition thenE :: "error + 'a \<Rightarrow> ('a \<Rightarrow> error + 'b) \<Rightarrow> error + 'b" where
  "thenE r k = (case r of Inl err \<Rightarrow> Inl err | Inr a \<Rightarrow> k a)"

text \<open>
  The two \<open>map\<close> callbacks, their conversions in the order of the object literal.
  Reading a property of a \<open>null\<close> element throws.
\<close>

definition migrateNode :: "Builtins \<Rightarrow> json \<Rightarrow> error + LoadedNode" where
  "migrateNode env n =
     (if n = JNull then Inl TypeError
      else
        thenE (Number_of env (field n ''id'')) (\<lambda>i.
        thenE (String_of env (orElse (field n ''label'') (Json (JString [])))) (\<lambda>l.
        thenE (Number_of env (field n ''x'')) (\<lambda>x.
        thenE (Number_of env (field n ''y'')) (\<lambda>y.
        thenE (Number_of env (orElse (field n ''w'') (Json (JNumber (Num BASE_W))))) (\<lambda>w.
        thenE (Number_of env (orElse (field n ''h'') (Json (JNumber (Num BASE_H))))) (\<lambda>h.
          Inr \<lparr>ld_id = i, ld_label = l, ld_x = x, ld_y = y, ld_w = w, ld_h = h,
                ld_strokeColor = orElse (field n ''strokeColor'') (Json (JString (str ''#333''))),
                ld_fillColor = field n ''fillColor'',
                ld_bold = Boolean_of (field n ''bold'')\<rparr>)))))))"

definition migrateEdge :: "Builtins \<Rightarrow> json \<Rightarrow> error + LoadedLink" where
  "migrateEdge env e =
     (if e = JNull then Inl TypeError
      else
        thenE (Number_of env (field e ''id'')) (\<lambda>i.
        thenE (Number_of env (field e ''source'')) (\<lambda>s.
        thenE (Number_of env (field e ''target'')) (\<lambda>t.
        thenE (if Boolean_of (field e ''label'')
               then thenE (String_of env (field e ''label'')) (\<lambda>l. Inr (Some l))
               else Inr None) (\<lambda>l.
          Inr \<lparr>lk_id = i, lk_source = s, lk_target = t, lk_label = l,
                lk_dashed = Boolean_of (field e ''dashed'')\<rparr>)))))"

fun mapE :: "('a \<Rightarrow> error + 'b) \<Rightarrow> 'a list \<Rightarrow> error + 'b list" where
  "mapE f [] = Inr []"
| "mapE f (a # as) =
     (case f a of
        Inl err \<Rightarrow> Inl err
      | Inr b \<Rightarrow> (case mapE f as of Inl err \<Rightarrow> Inl err | Inr bs \<Rightarrow> Inr (b # bs)))"

text \<open>
\<open>data?.k\<close>.
\<close>

definition optField :: "json \<Rightarrow> string \<Rightarrow> jsval" where
  "optField d k = (if d = JNull then Undefined else field d k)"

text \<open>
  The load effect on the pair of \<open>nodes\<close> and \<open>edges\<close>. \<open>raw\<close> is the result of
  \<open>localStorage.getItem\<close> (\<open>None\<close> for \<open>null\<close>), \<open>parse\<close> is \<open>JSON.parse\<close>
  with \<open>None\<close> for a thrown \<open>SyntaxError\<close>. Everything thrown inside the \<open>try\<close>
  block ends in the empty \<open>catch\<close>, before either setter has run.
\<close>

definition loadPersisted ::
  "Builtins \<Rightarrow> (jsstring \<Rightarrow> json option) \<Rightarrow> jsstring option \<Rightarrow>
   LoadedNode list \<times> LoadedLink list \<Rightarrow> LoadedNode list \<times> LoadedLink list" where
  "loadPersisted env parse raw st =
     (case raw of
        None \<Rightarrow> st
      | Some r \<Rightarrow>
          if r = [] then st
          else
            (case parse r of
               None \<Rightarrow> st
             | Some d \<Rightarrow>
                 (case (optField d ''nodes'', optField d ''edges'') of
                    (Json (JArray ns), Json (JArray es)) \<Rightarrow>
                      (case mapE (migrateNode env) ns of
                         Inl err \<Rightarrow> st
                       | Inr migrated \<Rightarrow>
                           (case mapE (migrateEdge env) es of
                              Inl err \<Rightarrow> st
                            | Inr migratedEdges \<Rightarrow> (migrated, migratedEdges)))
                  | _ \<Rightarrow> st)))"

definition initialStored :: "LoadedNode list \<times> LoadedLink list" where
  "initialStored =
     ([\<lparr>ld_id = Num 1, ld_label = str ''Type to change Text'', ld_x = Num 0, ld_y = Num 0,
        ld_w = Num BASE_W, ld_h = Num BASE_H, ld_strokeColor = Json (JString (str ''#333'')),
        ld_fillColor = Undefined, ld_bold = False\<rparr>], [])"

text \<open>
  Three stored blobs with what they parse to, and stand-ins for the built-in conversions
  (none of the blobs needs them).
\<close>

definition rawSample :: jsstring where
  \<open>rawSample = str ''{"nodes":[{"id":1,"strokeColor":5}],"edges":[]}''\<close>

definition parsedSample :: json where
  "parsedSample =
     JObject [(''nodes'', JArray [JObject [(''id'', JNumber (Num 1)), (''strokeColor'', JNumber (Num 5))]]),
              (''edges'', JArray [])]"

definition sampleBuiltins :: Builtins where
  "sampleBuiltins = \<lparr>strToNum = (\<lambda>t. NaN), numToStr = (\<lambda>n. [])\<rparr>"

definition rawPlain :: jsstring where
  \<open>rawPlain = str ''{"nodes":[{"id":1,"x":0,"y":0}],"edges":[{"id":7,"source":1,"target":2}]}''\<close>

definition parsedPlain :: json where
  "parsedPlain =
     JObject [(''nodes'', JArray [JObject [(''id'', JNumber (Num 1)), (''x'', JNumber (Num 0)),
                                            (''y'', JNumber (Num 0))]]),
              (''edges'', JArray [JObject [(''id'', JNumber (Num 7)), (''source'', JNumber (Num 1)),
                                            (''target'', JNumber (Num 2))]])]"

definition rawShadowed :: jsstring where
  \<open>rawShadowed = str ''{"nodes":[{"id":{"toString":null}}],"edges":[]}''\<close>

definition parsedShadowed :: json where
  "parsedShadowed =
     JObject [(''nodes'', JArray [JObject [(''id'', JObject [(''toString'', JNull)])]]),
              (''edges'', JArray [])]"

text \<open>
A property that is missing or \<open>null\<close>, the case in which \<open>??\<close> takes its default.
\<close>

definition absent :: "jsval \<Rightarrow> bool" where
  "absent v = (v = Undefined \<or> v = Json JNull)"

text \<open>
  The parsed values that cannot be converted: an object with an own property named
  \<open>toString\<close>, and an array that holds such a value at any depth. \<open>nodeFails\<close> and
  \<open>edgeFails\<close> are the array elements on which the loader's callbacks come to convert
  one (or which are \<open>null\<close>).
\<close>

fun unconvertible :: "json \<Rightarrow> bool" where
  "unconvertible (JObject kvs) = (map_of kvs ''toString'' \<noteq> None)"
| "unconvertible (JArray vs) = list_ex unconvertible vs"
| "unconvertible v = False"

definition throws :: "jsval \<Rightarrow> bool" where
  "throws v = (case v of Json j \<Rightarrow> unconvertible j | _ \<Rightarrow> False)"

definition nodeFails :: "json \<Rightarrow> bool" where
  "nodeFails n =
     (n = JNull \<or> list_ex (\<lambda>k. throws (field n k)) [''id'', ''label'', ''x'', ''y'', ''w'', ''h''])"

definition edgeFails :: "json \<Rightarrow> bool" where
  "edgeFails e =
     (e = JNull \<or> list_ex (\<lambda>k. throws (field e k)) [''id'', ''source'', ''target'', ''label''])"

subsection \<open>Size keys and label-driven size\<close>
text \<open>
  The updater of Shift with \<open>+\<close> or \<open>=\<close> and of Shift with \<open>-\<close> or \<open>_\<close>, on the
  nodes as the store holds them.
\<close>

definition growNode :: "LoadedNode \<Rightarrow> LoadedNode" where
  "growNode n = n\<lparr>ld_w := jsmin (Num 420) (jsround (jsmul (ld_w n) (fl 1.2))),
                  ld_h := jsmin (Num 240) (jsround (jsmul (ld_h n) (fl 1.15)))\<rparr>"

definition shrinkNode :: "LoadedNode \<Rightarrow> LoadedNode" where
  "shrinkNode n = n\<lparr>ld_w := jsmax (Num 80) (jsround (jsdiv (ld_w n) (fl 1.2))),
                    ld_h := jsmax (Num 48) (jsround (jsdiv (ld_h n) (fl 1.15)))\<rparr>"

text \<open>
  The two branches of the \<open>keydown\<close> handler, behind its test \<open>editingId != null\<close>
  (the test on the focused element is outside the model):
  whether \<open>pushHistory()\<close> was called, and the node list after the update (which the
  snapshot, taken before it, does not touch). \<open>ids.includes\<close> compares by
  SameValueZero, under which NaN equals itself, as equality on \<open>jsnum\<close> does.
\<close>

definition keyShiftPlus ::
  "jsnum option \<Rightarrow> jsnum list \<Rightarrow> LoadedNode list \<Rightarrow> bool \<times> LoadedNode list" where
  "keyShiftPlus editing selected ns =
     (if editing \<noteq> None then (False, ns)
      else (let ids = selected
            in if ids \<noteq> []
               then (True, map (\<lambda>n. if ld_id n \<in> set ids then growNode n else n) ns)
               else (False, ns)))"

definition keyShiftMinus ::
  "jsnum option \<Rightarrow> jsnum list \<Rightarrow> LoadedNode list \<Rightarrow> bool \<times> LoadedNode list" where
  "keyShiftMinus editing selected ns =
     (if editing \<noteq> None then (False, ns)
      else (let ids = selected
            in if ids \<noteq> []
               then (True, map (\<lambda>n. if ld_id n \<in> set ids then shrinkNode n else n) ns)
               else (False, ns)))"

definition resizeNodeForLabel :: "LoadedNode \<Rightarrow> LoadedNode" where
  "resizeNodeForLabel n =
     (let baseFont = clampNum (jsround (jsmul (ld_h n) (fl 0.35))) (Num 12) (Num 20);
          L = layoutLabel (ld_label n) baseFont (Num BASE_W)
      in n\<lparr>ld_w := width L, ld_h := height L\<rparr>)"

text \<open>
Stored nodes of a given id and size, for the examples.
\<close>

definition storedNode :: "real \<Rightarrow> real \<Rightarrow> real \<Rightarrow> LoadedNode" where
  "storedNode i w h =
     \<lparr>ld_id = Num i, ld_label = [], ld_x = Num 0, ld_y = Num 0, ld_w = Num w, ld_h = Num h,
      ld_strokeColor = Json (JString (str ''#333'')), ld_fillColor = Undefined, ld_bold = False\<rparr>"

definition threeStored :: "LoadedNode list" where
  "threeStored = [storedNode 1 120 64, storedNode 2 120 50, storedNode 3 120 64]"

text \<open>
A node carrying a single word of 100 letters, at the size its label gives it.
\<close>

definition wideStored :: LoadedNode where
  "wideStored = (storedNode 1 1232 64)\<lparr>ld_label := replicate 100 97\<rparr>"

subsection \<open>Starting state and sample maps\<close>

text \<open>
  The state after mounting on a surface with bounding rectangle \<open>rect\<close>: one node,
  selected, the origin centred.
\<close>

definition initialState :: "Rect \<Rightarrow> state" where
  "initialState rect =
     \<lparr>nodes = [\<lparr>n_id = 1, n_label = str ''Type to change Text'', n_x = 0, n_y = 0,
                 n_w = BASE_W, n_h = BASE_H, n_strokeColor = ''#333'', n_fillColor = None,
                 n_bold = Some False\<rparr>],
      edges = [],
      selectedId = Some 1, selectedIds = [1], selectedEdgeIds = [],
      pan = \<lparr>pt_x = r_width rect / 2, pt_y = r_height rect / 2\<rparr>, scale = 1,
      shiftTabPath = None, shiftTabIndex = 0,
      svgRect = Some rect,
      draggingNodeId = None, dragOffset = \<lparr>pt_x = 0, pt_y = 0\<rparr>, somethingMoved = False,
      groupDragging = False, groupStart = \<lparr>pt_x = 0, pt_y = 0\<rparr>, groupStartPositions = [],
      panning = False, panStart = \<lparr>pt_x = 0, pt_y = 0\<rparr>, panAtStart = \<lparr>pt_x = 0, pt_y = 0\<rparr>,
      activeTouches = [], pinchStart = None,
      marquee = \<lparr>m_active = False, m_x1 = 0, m_y1 = 0, m_x2 = 0, m_y2 = 0\<rparr>,
      editingId = None, linking = idleLinking, freshTyping = True,
      undoStack = [], redoStack = []\<rparr>"

definition surface :: Rect where
  "surface = \<lparr>r_left = 0, r_top = 0, r_width = 800, r_height = 600\<rparr>"

definition plainNode :: "int \<Rightarrow> real \<Rightarrow> real \<Rightarrow> MindNode" where
  "plainNode i px py =
     \<lparr>n_id = i, n_label = [], n_x = px, n_y = py, n_w = BASE_W, n_h = BASE_H,
      n_strokeColor = ''#333'', n_fillColor = None, n_bold = Some False\<rparr>"

definition plainEdge :: "int \<Rightarrow> int \<Rightarrow> int \<Rightarrow> Link" where
  "plainEdge i a b = \<lparr>e_id = i, source = a, target = b, e_label = None, dashed = None\<rparr>"

text \<open>A chain 1 \<rightarrow> 2 \<rightarrow> 3 with node 2 selected.\<close>

definition chainMap :: state where
  "chainMap =
     (initialState surface)
       \<lparr>nodes := [plainNode 1 0 0, plainNode 2 300 0, plainNode 3 600 0],
        edges := [plainEdge 10 1 2, plainEdge 11 2 3],
        selectedId := Some 2, selectedIds := [2]\<rparr>"

text \<open>Nodes 1 and 2 joined by an edge from 1 to 2, node 2 selected.\<close>

definition pairMap :: state where
  "pairMap =
     (initialState surface)
       \<lparr>nodes := [plainNode 1 0 0, plainNode 2 160 0],
        edges := [plainEdge 10 1 2],
        selectedId := Some 2, selectedIds := [2]\<rparr>"

definition wheelIn :: WheelEv where
  "wheelIn = \<lparr>we_clientX = 500, we_clientY = 200, we_deltaX = 0, we_deltaY = - 2000,
              we_shiftKey = False\<rparr>"

text \<open>
  The state after one Shift+Tab on \<open>pairMap\<close>: the index was stored, then \<open>selectOnly\<close>
  selected node 1 and cleared the remembered path and index.
\<close>

definition afterFirstTab :: state where
  "afterFirstTab = selectOnly 1 (pairMap\<lparr>shiftTabPath := Some [1, 2], shiftTabIndex := 0\<rparr>)"

text \<open>
  A whole single-pointer gesture that starts on node \<open>i\<close>: press, one move, release.
\<close>

definition dragGesture ::
  "PointerEv \<Rightarrow> PointerEv \<Rightarrow> PointerEv \<Rightarrow> int \<Rightarrow> int \<Rightarrow> state \<Rightarrow> error + state" where
  "dragGesture down move up i now s =
     (case pointerDownOnNode down i now s of
        Inl err \<Rightarrow> Inl err
      | Inr s1 \<Rightarrow>
          (case onPointerMoveSvg move s1 of
             Inl err \<Rightarrow> Inl err
           | Inr s2 \<Rightarrow> Inr (onPointerUpSvg (Some up) now s2)))"

definition pointerAt :: "real \<Rightarrow> real \<Rightarrow> PointerEv" where
  "pointerAt cx cy = \<lparr>pe_pointerId = 1, pe_clientX = cx, pe_clientY = cy, pe_shiftKey = False\<rparr>"

text \<open>The state the press-move-release gesture below ends in: node 1 has moved to x = 100.\<close>

definition afterDrag :: state where
  "afterDrag =
     (initialState surface)
       \<lparr>nodes := [(plainNode 1 100 0)\<lparr>n_label := str ''Type to change Text''\<rparr>],
        undoStack := [snapshot ((initialState surface)
          \<lparr>nodes := [(plainNode 1 100 0)\<lparr>n_label := str ''Type to change Text''\<rparr>]\<rparr>)],
        panStart := \<lparr>pt_x = 400, pt_y = 300\<rparr>,
        panAtStart := \<lparr>pt_x = 400, pt_y = 300\<rparr>\<rparr>"

text \<open>An edge is dangling when an end is not the id of a node (the renderer skips it).\<close>

definition danglingFree :: "state \<Rightarrow> bool" where
  "danglingFree s =
     list_all (\<lambda>e. findNode (source e) s \<noteq> None \<and> findNode (target e) s \<noteq> None) (edges s)"

section \<open>Removal purges edges\<close>

lemma removeNodes_edges:
  "edges (removeNodes ids s) = filter (\<lambda>e. source e \<notin> set ids \<and> target e \<notin> set ids) (edges s)"
  by (cases "ids = []")
     (auto simp: removeNodes_def pushHistory_def clearSelection_def Let_def
           split: list.splits option.splits)

lemma removeNodes_nodes:
  "nodes (removeNodes ids s) = filter (\<lambda>n. n_id n \<notin> set ids) (nodes s)"
  by (cases "ids = []")
     (auto simp: removeNodes_def pushHistory_def clearSelection_def Let_def
           split: list.splits option.splits)

lemma findNode_None_iff: "findNode i s = None \<longleftrightarrow> (\<forall>n\<in>set (nodes s). n_id n \<noteq> i)"
  by (auto simp: findNode_def find_None_iff)

text \<open>
  Claim C2. For every list of node ids, after \<open>removeNodes ids\<close> no edge of the store has
  its source or its target in \<open>ids\<close> and no node with such an id is left; both removals
  are the result of the one call, so a store without dangling edges stays without them.
\<close>

theorem removeNodes_purges:
  "(\<forall>e \<in> set (edges (removeNodes ids s)). source e \<notin> set ids \<and> target e \<notin> set ids)
   \<and> (\<forall>n \<in> set (nodes (removeNodes ids s)). n_id n \<notin> set ids)
   \<and> (danglingFree s \<longrightarrow> danglingFree (removeNodes ids s))"
proof (intro conjI impI)
  show "\<forall>e \<in> set (edges (removeNodes ids s)). source e \<notin> set ids \<and> target e \<notin> set ids"
    by (simp add: removeNodes_edges)
  show "\<forall>n \<in> set (nodes (removeNodes ids s)). n_id n \<notin> set ids"
    by (simp add: removeNodes_nodes)
  assume df: "danglingFree s"
  have "\<And>i. findNode i (removeNodes ids s) \<noteq> None \<longleftrightarrow> findNode i s \<noteq> None \<and> i \<notin> set ids"
    by (auto simp: findNode_def find_None_iff removeNodes_nodes)
  with df show "danglingFree (removeNodes ids s)"
    by (auto simp: danglingFree_def list_all_iff removeNodes_edges)
qed

theorem removeNodes_purges_witness:
  "edges (removeNodes [3] chainMap) = [plainEdge 10 1 2]
   \<and> map n_id (nodes (removeNodes [3] chainMap)) = [1, 2]
   \<and> danglingFree chainMap
   \<and> danglingFree (removeNodes [3] chainMap)"
proof -
  have e: "edges (removeNodes [3] chainMap) = [plainEdge 10 1 2]"
    by (simp add: removeNodes_edges chainMap_def plainEdge_def)
  have n: "map n_id (nodes (removeNodes [3] chainMap)) = [1, 2]"
    by (simp add: removeNodes_nodes chainMap_def plainNode_def)
  have d: "danglingFree chainMap"
    by (simp add: danglingFree_def chainMap_def plainEdge_def plainNode_def findNode_def)
  from removeNodes_purges[of "[3]" chainMap] e n d show ?thesis by blast
qed

section \<open>Adding a child to a parent that does not exist\<close>

text \<open>
  Claim C10. When \<open>parentId\<close> is not the id of a node of the store, \<open>addChild parentId\<close>
  answers \<open>parentId\<close> and returns the state as it was: nodes, edges, selection and both
  history stacks are untouched.
\<close>

theorem addChild_unknown_parent:
  "(\<forall>n \<in> set (nodes s). n_id n \<noteq> parentId) \<Longrightarrow> addChild parentId now s = (parentId, s)"
  by (simp add: addChild_def findNode_None_iff[symmetric])

theorem addChild_unknown_parent_witness:
  "addChild 7 1000 chainMap = (7, chainMap)"
proof -
  have h: "\<forall>n \<in> set (nodes chainMap). n_id n \<noteq> 7"
    by (simp add: chainMap_def plainNode_def)
  from addChild_unknown_parent[OF h, of 1000] show ?thesis .
qed

section \<open>Edges are created once per pair\<close>






section \<open>Rounding to doubles\<close>

lemma pow2_powr: "pow2 k = 2 powr (of_int k)"
proof (cases "0 \<le> k")
  case True
  then show ?thesis by (simp add: pow2_def powr_realpow[symmetric])
next
  case False
  then have "pow2 k = 1 / 2 ^ nat (- k)" by (simp add: pow2_def)
  also have "\<dots> = 1 / 2 powr (of_int (- k))" using False by (simp add: powr_realpow[symmetric])
  also have "\<dots> = 2 powr (of_int k)" by (simp add: powr_minus divide_inverse)
  finally show ?thesis .
qed

lemma pow2_pos: "0 < pow2 k"
  by (simp add: pow2_powr)

lemma pow2_add: "pow2 (j + k) = pow2 j * pow2 k"
  by (simp add: pow2_powr powr_add)

lemma pow2_mono: "j \<le> k \<Longrightarrow> pow2 j \<le> pow2 k"
  by (simp add: pow2_powr)

lemma pow2_1024: "pow2 1024 = 2 ^ 1024"
  by (simp add: pow2_def)

lemma pow2_53: "pow2 53 = 2 ^ 53"
  by (simp add: pow2_def)

lemma pow2_neg_nat: "k \<le> 0 \<Longrightarrow> pow2 k = 1 / 2 ^ nat (- k)"
  by (cases "k = 0") (simp_all add: pow2_def)

lemma floor_log2: "pow2 e \<le> \<bar>x\<bar> \<Longrightarrow> \<bar>x\<bar> < pow2 (e + 1) \<Longrightarrow> \<lfloor>log 2 \<bar>x\<bar>\<rfloor> = e"
proof -
  assume a: "pow2 e \<le> \<bar>x\<bar>" and b: "\<bar>x\<bar> < pow2 (e + 1)"
  have "0 < \<bar>x\<bar>" using a pow2_pos[of e] by linarith
  then show ?thesis
    using floor_log_eq_powr_iff[of "\<bar>x\<bar>" 2 e] a b by (simp add: pow2_powr)
qed

lemma floor_log2_bounds:
  assumes "0 < x"
  shows "pow2 \<lfloor>log 2 x\<rfloor> \<le> x" "x < pow2 (\<lfloor>log 2 x\<rfloor> + 1)"
  using floor_log_eq_powr_iff[of x 2 "\<lfloor>log 2 x\<rfloor>"] assms by (simp_all add: pow2_powr)

lemma floor_log2_less:
  assumes "0 < x" "x < pow2 k"
  shows "\<lfloor>log 2 x\<rfloor> < k"
proof (rule ccontr)
  assume "\<not> \<lfloor>log 2 x\<rfloor> < k"
  then have "pow2 k \<le> pow2 \<lfloor>log 2 x\<rfloor>" by (intro pow2_mono) simp
  with floor_log2_bounds(1)[OF assms(1)] assms(2) show False by linarith
qed

lemma floor_log2_ge:
  assumes "pow2 k \<le> x"
  shows "k \<le> \<lfloor>log 2 x\<rfloor>"
proof (rule ccontr)
  assume "\<not> k \<le> \<lfloor>log 2 x\<rfloor>"
  then have "pow2 (\<lfloor>log 2 x\<rfloor> + 1) \<le> pow2 k" by (intro pow2_mono) simp
  moreover have "0 < x" using assms pow2_pos[of k] by linarith
  ultimately show False using floor_log2_bounds(2)[of x] assms by linarith
qed

lemma roundHalfEven_near: "\<bar>of_int (roundHalfEven q) - q\<bar> \<le> 1 / 2"
  unfolding roundHalfEven_def Let_def by (auto simp: abs_if) linarith+

lemma roundHalfEven_int: "roundHalfEven (of_int m) = m"
  by (simp add: roundHalfEven_def)

lemma roundHalfEven_bounds: "\<lfloor>q\<rfloor> \<le> roundHalfEven q" "roundHalfEven q \<le> \<lfloor>q\<rfloor> + 1"
  by (simp_all add: roundHalfEven_def Let_def)

lemma roundHalfEven_mono: "q \<le> q' \<Longrightarrow> roundHalfEven q \<le> roundHalfEven q'"
proof -
  assume le: "q \<le> q'"
  have fm: "\<lfloor>q\<rfloor> \<le> \<lfloor>q'\<rfloor>" using le by (rule floor_mono)
  show ?thesis
  proof (cases "\<lfloor>q\<rfloor> = \<lfloor>q'\<rfloor>")
    case True
    then show ?thesis using le unfolding roundHalfEven_def Let_def by auto
  next
    case False
    then have "\<lfloor>q\<rfloor> + 1 \<le> \<lfloor>q'\<rfloor>" using fm by simp
    then show ?thesis using roundHalfEven_bounds(2)[of q] roundHalfEven_bounds(1)[of q'] by linarith
  qed
qed

lemma roundHalfEven_near_int:
  assumes "\<bar>q - of_int J\<bar> < 1 / 2"
  shows "roundHalfEven q = J"
proof -
  have "\<bar>of_int (roundHalfEven q) - q\<bar> \<le> 1 / 2" by (rule roundHalfEven_near)
  with assms have "\<bar>real_of_int (roundHalfEven q) - of_int J\<bar> < 1" by linarith
  then have "\<bar>real_of_int (roundHalfEven q - J)\<bar> < 1" by simp
  then have "\<bar>roundHalfEven q - J\<bar> < 1" by linarith
  then show ?thesis by simp
qed

lemma rounded_near:
  assumes "0 < u"
  shows "\<bar>of_int (roundHalfEven (x / u)) * u - x\<bar> \<le> u / 2"
proof -
  have "of_int (roundHalfEven (x / u)) * u - x = (of_int (roundHalfEven (x / u)) - x / u) * u"
    using assms by (simp add: field_simps)
  then have "\<bar>of_int (roundHalfEven (x / u)) * u - x\<bar> = \<bar>of_int (roundHalfEven (x / u)) - x / u\<bar> * u"
    using assms by (simp add: abs_mult)
  also have "\<dots> \<le> (1 / 2) * u"
    using roundHalfEven_near[of "x / u"] assms by (intro mult_right_mono) simp_all
  finally show ?thesis by simp
qed

text \<open>
The value of \<open>fl\<close> on a number whose exponent is known.
\<close>

lemma fl_eval:
  assumes lo: "pow2 e \<le> \<bar>x\<bar>" and hi: "\<bar>x\<bar> < pow2 (e + 1)"
      and emin: "- 1022 \<le> e" and emax: "e \<le> 1022"
  shows "fl x = Num (of_int (roundHalfEven (x / pow2 (e - 52))) * pow2 (e - 52))"
proof -
  let ?u = "pow2 (e - 52)"
  let ?y = "of_int (roundHalfEven (x / ?u)) * ?u"
  have nz: "x \<noteq> 0" using lo pow2_pos[of e] by auto
  have ex: "max \<lfloor>log 2 \<bar>x\<bar>\<rfloor> (- 1022) = e"
    using floor_log2[OF lo hi] emin by simp
  have "\<bar>?y - x\<bar> \<le> ?u / 2" by (rule rounded_near[OF pow2_pos])
  then have "\<bar>?y\<bar> \<le> \<bar>x\<bar> + ?u / 2" by linarith
  also have "\<dots> < pow2 (e + 1) + ?u" using hi pow2_pos[of "e - 52"] by linarith
  also have "\<dots> \<le> pow2 (e + 1) + pow2 (e + 1)" using pow2_mono[of "e - 52" "e + 1"] by simp
  also have "\<dots> = pow2 (e + 2)"
  proof -
    have "pow2 (e + 1 + 1) = pow2 (e + 1) * pow2 1" by (rule pow2_add)
    moreover have "pow2 1 = 2" by (simp add: pow2_def)
    moreover have "e + 1 + 1 = e + 2" by simp
    ultimately show ?thesis by simp
  qed
  also have "\<dots> \<le> pow2 1024" using emax by (intro pow2_mono) simp
  finally have "\<bar>?y\<bar> < 2 ^ 1024" by (simp add: pow2_1024)
  then show ?thesis
    using nz ex by (simp add: fl_def Let_def)
qed

lemma fl_not_NaN: "fl x \<noteq> NaN"
  by (simp add: fl_def Let_def)

lemma fl_cases: "(\<exists>y. fl x = Num y) \<or> fl x = PosInfinity \<or> fl x = NegInfinity"
  by (simp add: fl_def Let_def)

lemma fl_int:
  assumes "\<bar>k\<bar> < 2 ^ 53"
  shows "fl (of_int k) = Num (of_int k)"
proof (cases "k = 0")
  case True
  then show ?thesis by (simp add: fl_def)
next
  case False
  define x :: real where "x = of_int k"
  define e where "e = \<lfloor>log 2 \<bar>x\<bar>\<rfloor>"
  have xpos: "1 \<le> \<bar>x\<bar>" using False by (simp add: x_def)
  have xlt: "\<bar>x\<bar> < 2 ^ 53"
  proof -
    have "real_of_int \<bar>k\<bar> < real_of_int (2 ^ 53)" using assms by (simp only: of_int_less_iff)
    then show ?thesis by (simp add: x_def)
  qed
  have e0: "0 \<le> e" using xpos by (simp add: e_def)
  define B :: real where "B = 2 powr 53"
  have lo: "2 powr (of_int e) \<le> \<bar>x\<bar>"
    using floor_log_eq_powr_iff[of "\<bar>x\<bar>" 2 e] xpos by (simp add: e_def)
  have "\<bar>x\<bar> < B" using xlt by (simp add: B_def)
  with lo have lt: "2 powr (of_int e) < 2 powr (53::real)" unfolding B_def by linarith
  have "real_of_int e < 53"
  proof (rule iffD1[OF powr_less_cancel_iff])
    show "1 < (2::real)" by simp
    show "2 powr real_of_int e < 2 powr 53" by (rule lt)
  qed
  then have e52: "e \<le> 52" by linarith
  define n where "n = nat (52 - e)"
  have u: "pow2 (e - 52) = 1 / 2 ^ n" using e52 e0
    by (cases "e = 52") (simp_all add: pow2_def n_def)
  have q: "x / pow2 (e - 52) = of_int (k * 2 ^ n)" by (simp add: u x_def)
  have y: "of_int (roundHalfEven (x / pow2 (e - 52))) * pow2 (e - 52) = x"
    unfolding q roundHalfEven_int by (simp add: u x_def)
  have "max e (- 1022) = e" using e0 by simp
  moreover have "\<bar>x\<bar> < 2 ^ 1024"
  proof -
    have "(2::real) ^ 53 \<le> 2 ^ 1024" by (intro power_increasing) simp_all
    with xlt show ?thesis by linarith
  qed
  moreover have "x \<noteq> 0" using xpos by auto
  ultimately show ?thesis
    using y unfolding fl_def Let_def e_def[symmetric] x_def[symmetric] by simp
qed

lemma fl_numeral [simp]: "numeral k < (2::int) ^ 53 \<Longrightarrow> fl (numeral k) = Num (numeral k)"
  using fl_int[of "numeral k"] by simp

lemma fl_0 [simp]: "fl 0 = Num 0" by (simp add: fl_def)

lemma fl_1 [simp]: "fl 1 = Num 1" using fl_int[of 1] by simp

lemma fl_nat: "n < 2 ^ 53 \<Longrightarrow> fl (real n) = Num (real n)"
proof -
  assume "n < 2 ^ 53"
  then have "int n < 2 ^ 53" by (metis of_nat_less_iff of_nat_numeral of_nat_power)
  then have "\<bar>int n\<bar> < 2 ^ 53" by simp
  from fl_int[OF this] show ?thesis by simp
qed

text \<open>
The shape of \<open>fl\<close> on a positive number; rounding is monotone against whole numbers.
\<close>

lemma fl_pos:
  assumes "0 < x"
  shows "fl x = (if 2 ^ 1024 \<le> of_int (roundHalfEven (x / pow2 (max \<lfloor>log 2 x\<rfloor> (- 1022) - 52)))
                                 * pow2 (max \<lfloor>log 2 x\<rfloor> (- 1022) - 52)
                 then PosInfinity
                 else Num (of_int (roundHalfEven (x / pow2 (max \<lfloor>log 2 x\<rfloor> (- 1022) - 52)))
                                 * pow2 (max \<lfloor>log 2 x\<rfloor> (- 1022) - 52)))"
    and "0 \<le> roundHalfEven (x / pow2 (max \<lfloor>log 2 x\<rfloor> (- 1022) - 52))"
proof -
  let ?u = "pow2 (max \<lfloor>log 2 x\<rfloor> (- 1022) - 52)"
  have "0 \<le> x / ?u" using assms pow2_pos[of "max \<lfloor>log 2 x\<rfloor> (- 1022) - 52"] by simp
  then have "roundHalfEven 0 \<le> roundHalfEven (x / ?u)" by (rule roundHalfEven_mono)
  then show r: "0 \<le> roundHalfEven (x / ?u)" by (simp add: roundHalfEven_def)
  then have "0 \<le> real_of_int (roundHalfEven (x / ?u)) * ?u"
    using pow2_pos[of "max \<lfloor>log 2 x\<rfloor> (- 1022) - 52"] by simp
  then show "fl x = (if 2 ^ 1024 \<le> of_int (roundHalfEven (x / ?u)) * ?u then PosInfinity
                     else Num (of_int (roundHalfEven (x / ?u)) * ?u))"
    using assms by (simp add: fl_def Let_def)
qed

lemma fl_le_int:
  assumes "0 < x" "x \<le> of_int K" "K < 2 ^ 53"
  shows "\<exists>t. fl x = Num t \<and> 0 \<le> t \<and> t \<le> of_int K"
proof -
  define e where "e = max \<lfloor>log 2 x\<rfloor> (- 1022)"
  define u where "u = pow2 (e - 52)"
  define n where "n = nat (52 - e)"
  have "real_of_int K < real_of_int (2 ^ 53)" using assms(3) by (simp only: of_int_less_iff)
  then have "x < pow2 53" using assms(2) by (simp add: pow2_53)
  then have "\<lfloor>log 2 x\<rfloor> < 53" using assms(1) by (intro floor_log2_less)
  then have e52: "e - 52 \<le> 0" by (simp add: e_def)
  have u: "u = 1 / 2 ^ n" unfolding u_def n_def using pow2_neg_nat[OF e52] by simp
  have upos: "0 < u" by (simp add: u)
  have "x / u \<le> of_int (K * 2 ^ n)" using assms(2) by (simp add: u)
  then have "roundHalfEven (x / u) \<le> roundHalfEven (of_int (K * 2 ^ n))"
    by (rule roundHalfEven_mono)
  then have "roundHalfEven (x / u) \<le> K * 2 ^ n" by (simp only: roundHalfEven_int)
  then have "real_of_int (roundHalfEven (x / u)) \<le> real_of_int (K * 2 ^ n)"
    by (simp only: of_int_le_iff)
  then have "real_of_int (roundHalfEven (x / u)) * u \<le> real_of_int (K * 2 ^ n) * u"
    using upos by (intro mult_right_mono) simp_all
  also have "\<dots> = of_int K" by (simp add: u)
  finally have le: "real_of_int (roundHalfEven (x / u)) * u \<le> of_int K" .
  have "real_of_int K < 2 ^ 1024"
  proof -
    have "(2::real) ^ 53 \<le> 2 ^ 1024" by (intro power_increasing) simp_all
    with \<open>real_of_int K < real_of_int (2 ^ 53)\<close> show ?thesis by simp
  qed
  with le have fin: "\<not> 2 ^ 1024 \<le> real_of_int (roundHalfEven (x / u)) * u" by linarith
  have nn: "0 \<le> real_of_int (roundHalfEven (x / u)) * u"
    using fl_pos(2)[OF assms(1)] upos unfolding u_def e_def by simp
  have "fl x = Num (real_of_int (roundHalfEven (x / u)) * u)"
    using fl_pos(1)[OF assms(1)] fin unfolding u_def e_def by simp
  with le nn show ?thesis by blast
qed

lemma fl_ge_int:
  assumes "0 \<le> K" "K < 2 ^ 53" "of_int K \<le> y"
  shows "jsle (Num (of_int K)) (fl y)"
proof (cases "y = 0")
  case True
  then show ?thesis using assms by simp
next
  case False
  then have ypos: "0 < y" using assms by simp
  define e where "e = max \<lfloor>log 2 y\<rfloor> (- 1022)"
  define u where "u = pow2 (e - 52)"
  have upos: "0 < u" by (simp add: u_def pow2_pos)
  have r0: "0 \<le> roundHalfEven (y / u)" using fl_pos(2)[OF ypos] unfolding u_def e_def .
  have ge: "of_int K \<le> real_of_int (roundHalfEven (y / u)) * u"
  proof (cases "K = 0")
    case True
    then show ?thesis using r0 upos by simp
  next
    case False
    then have "1 \<le> y" using assms by linarith
    then have "pow2 0 \<le> y" by (simp add: pow2_def)
    then have l0: "0 \<le> \<lfloor>log 2 y\<rfloor>" by (rule floor_log2_ge)
    then have e: "e = \<lfloor>log 2 y\<rfloor>" by (simp add: e_def)
    show ?thesis
    proof (cases "e \<le> 52")
      case True
      define n where "n = nat (52 - e)"
      have u: "u = 1 / 2 ^ n" unfolding u_def n_def using pow2_neg_nat[of "e - 52"] True by simp
      have "of_int (K * 2 ^ n) \<le> y / u" using assms(3) by (simp add: u)
      then have "roundHalfEven (of_int (K * 2 ^ n)) \<le> roundHalfEven (y / u)"
        by (rule roundHalfEven_mono)
      then have "K * 2 ^ n \<le> roundHalfEven (y / u)" by (simp only: roundHalfEven_int)
      then have "real_of_int (K * 2 ^ n) \<le> real_of_int (roundHalfEven (y / u))"
        by (simp only: of_int_le_iff)
      then have "real_of_int (K * 2 ^ n) * u \<le> real_of_int (roundHalfEven (y / u)) * u"
        using upos by (intro mult_right_mono) simp_all
      moreover have "real_of_int (K * 2 ^ n) * u = of_int K" by (simp add: u)
      ultimately show ?thesis by (simp only:)
    next
      case False
      then have e53: "53 \<le> e" by simp
      have pe: "pow2 e \<le> y" using floor_log2_bounds(1)[OF ypos] e by simp
      have split: "pow2 e = pow2 52 * u" unfolding u_def using pow2_add[of 52 "e - 52"] by simp
      have "pow2 52 = of_int (2 ^ 52)" by (simp add: pow2_def)
      then have "of_int (2 ^ 52) \<le> y / u" using pe upos by (simp add: split field_simps)
      then have "roundHalfEven (of_int (2 ^ 52)) \<le> roundHalfEven (y / u)"
        by (rule roundHalfEven_mono)
      then have "2 ^ 52 \<le> roundHalfEven (y / u)" by (simp only: roundHalfEven_int)
      then have "real_of_int (2 ^ 52) \<le> real_of_int (roundHalfEven (y / u))"
        by (simp only: of_int_le_iff)
      then have "real_of_int (2 ^ 52) * u \<le> real_of_int (roundHalfEven (y / u)) * u"
        using upos by (intro mult_right_mono) simp_all
      moreover have "real_of_int (2 ^ 52) * u = pow2 e" using split by (simp add: pow2_def)
      moreover have "pow2 53 \<le> pow2 e" using e53 by (rule pow2_mono)
      moreover have "real_of_int K < real_of_int (2 ^ 53)" using assms(2) by (simp only: of_int_less_iff)
      ultimately show ?thesis by (simp add: pow2_53)
    qed
  qed
  show ?thesis
    using fl_pos(1)[OF ypos] ge unfolding u_def e_def by simp
qed

text \<open>
A number below 2^k in magnitude is rounded by at most 2^(k-54).
\<close>

lemma fl_near:
  assumes "\<bar>x\<bar> < pow2 k" "- 1021 \<le> k" "k \<le> 1023"
  shows "\<exists>t. fl x = Num t \<and> \<bar>t - x\<bar> \<le> pow2 (k - 54)"
proof (cases "x = 0")
  case True
  then show ?thesis using pow2_pos[of "k - 54"] by simp
next
  case False
  define e where "e = max \<lfloor>log 2 \<bar>x\<bar>\<rfloor> (- 1022)"
  define u where "u = pow2 (e - 52)"
  define y where "y = real_of_int (roundHalfEven (x / u)) * u"
  have upos: "0 < u" by (simp add: u_def pow2_pos)
  have "\<lfloor>log 2 \<bar>x\<bar>\<rfloor> < k" using False assms(1) by (intro floor_log2_less) simp_all
  then have ek: "e \<le> k - 1" using assms(2) by (simp add: e_def)
  then have "u \<le> pow2 (k - 53)" unfolding u_def by (intro pow2_mono) simp
  moreover have "pow2 (k - 53) = pow2 (k - 54) * 2"
    using pow2_add[of "k - 54" 1] by (simp add: pow2_def)
  ultimately have uh: "u / 2 \<le> pow2 (k - 54)" by simp
  have near: "\<bar>y - x\<bar> \<le> u / 2" unfolding y_def by (rule rounded_near[OF upos])
  have "pow2 (k - 54) \<le> pow2 k" by (intro pow2_mono) simp
  then have "\<bar>y\<bar> < pow2 k + pow2 k" using near uh assms(1) by linarith
  also have "\<dots> = pow2 (k + 1)" using pow2_add[of k 1] by (simp add: pow2_def)
  also have "\<dots> \<le> pow2 1024" using assms(3) by (intro pow2_mono) simp
  finally have "\<bar>y\<bar> < 2 ^ 1024" by (simp add: pow2_1024)
  then have "fl x = Num y"
    using False unfolding y_def u_def e_def by (simp add: fl_def Let_def)
  with near uh show ?thesis by auto
qed

lemma jsle_NaN [simp]: "\<not> jsle a NaN" "\<not> jsle NaN a"
  by (cases a; simp)+

lemma jsle_refl: "a \<noteq> NaN \<Longrightarrow> jsle a a"
  by (cases a) simp_all

lemma jsle_trans: "jsle a b \<Longrightarrow> jsle b c \<Longrightarrow> jsle a c"
  by (cases a; cases b; cases c) simp_all

lemma jsle_total: "a \<noteq> NaN \<Longrightarrow> b \<noteq> NaN \<Longrightarrow> jsle a b \<or> jsle b a"
  by (cases a; cases b) auto

lemma jsle_not_NaN: "jsle a b \<Longrightarrow> a \<noteq> NaN \<and> b \<noteq> NaN"
  by (cases a; cases b) simp_all

lemma jsmax_NaN: "jsmax a b = NaN \<longleftrightarrow> a = NaN \<or> b = NaN"
  by (auto simp: jsmax_def)

lemma jsmin_NaN: "jsmin a b = NaN \<longleftrightarrow> a = NaN \<or> b = NaN"
  by (auto simp: jsmin_def)

lemma jsmax_ge:
  assumes "a \<noteq> NaN" "b \<noteq> NaN"
  shows "jsle a (jsmax a b)" "jsle b (jsmax a b)"
  using assms jsle_total[of a b] by (auto simp: jsmax_def jsle_refl)

lemma jsmin_le:
  assumes "a \<noteq> NaN" "b \<noteq> NaN"
  shows "jsle (jsmin a b) a" "jsle (jsmin a b) b"
  using assms jsle_total[of a b] by (auto simp: jsmin_def jsle_refl)

lemma jsmax_absorb: "jsmax (jsmax a b) b = jsmax a b"
proof (cases "a = NaN \<or> b = NaN")
  case True
  then show ?thesis by (auto simp: jsmax_def)
next
  case False
  then show ?thesis using jsle_total[of a b] by (auto simp: jsmax_def jsle_refl)
qed

lemma jsmax_Num: "jsmax (Num a) (Num b) = Num (max a b)"
  by (simp add: jsmax_def max_def)

lemma jsmin_Num: "jsmin (Num a) (Num b) = Num (min a b)"
  by (simp add: jsmin_def min_def)

lemma jsceil_NaN: "jsceil a = NaN \<longleftrightarrow> a = NaN"
  by (cases a) simp_all

lemma jsround_NaN: "jsround a = NaN \<longleftrightarrow> a = NaN"
  by (cases a) simp_all

lemma jsadd_Num_NaN: "jsadd a (Num c) = NaN \<longleftrightarrow> a = NaN"
  by (cases a) (simp_all add: fl_not_NaN)

lemma jsmul_Num: "jsmul (Num a) (Num b) = fl (a * b)"
  by (simp add: jsmul_def)

lemma jsmul_Num_Num: "jsmul (Num a) (Num b) \<noteq> NaN"
  by (simp add: jsmul_def fl_not_NaN)

lemma jsmul_Num_NaN: "c \<noteq> 0 \<Longrightarrow> jsmul a (Num c) = NaN \<longleftrightarrow> a = NaN"
  by (cases a) (auto simp: jsmul_def fl_not_NaN)

lemma jsmul_fl_Num_not_NaN: "c \<noteq> 0 \<Longrightarrow> jsmul (fl x) (Num c) \<noteq> NaN"
  by (simp add: jsmul_Num_NaN fl_not_NaN)

lemma jsdiv_Num: "c \<noteq> 0 \<Longrightarrow> jsdiv (Num a) (Num c) = fl (a / c)"
  by (simp add: jsdiv_def)

lemma jsdiv_Num_NaN: "c \<noteq> 0 \<Longrightarrow> jsdiv a (Num c) = NaN \<longleftrightarrow> a = NaN"
  by (cases a) (auto simp: jsdiv_def fl_not_NaN)

text \<open>
The four literals.
\<close>

lemma c06: "fl 0.6 = Num (5404319552844595 / 9007199254740992)"
  using fl_eval[of "- 1" "6 / 10"] by (simp add: pow2_def roundHalfEven_def Let_def)

lemma c115: "fl 1.15 = Num (5179139571476070 / 4503599627370496)"
  using fl_eval[of 0 "115 / 100"] by (simp add: pow2_def roundHalfEven_def Let_def)

lemma c12: "fl 1.2 = Num (5404319552844595 / 4503599627370496)"
  using fl_eval[of 0 "12 / 10"] by (simp add: pow2_def roundHalfEven_def Let_def)

lemma c035: "fl 0.35 = Num (6305039478318694 / 18014398509481984)"
  using fl_eval[of "- 2" "35 / 100"] by (simp add: pow2_def roundHalfEven_def Let_def)

lemma fl_06: "fl 0.6 = Num d06"
  unfolding d06_def by (rule c06)

lemma fl_115: "fl 1.15 = Num d115" unfolding d115_def by (rule c115)

lemma fl_12: "fl 1.2 = Num d12" unfolding d12_def by (rule c12)

lemma fl_035: "fl 0.35 = Num d035" unfolding d035_def by (rule c035)

lemma d12_bounds: "1 \<le> d12" "d12 \<le> 2" "\<bar>d12 - 12 / 10\<bar> \<le> 1 / 2 ^ 53"
  by (simp_all add: d12_def)

lemma d115_bounds: "1 \<le> d115" "d115 \<le> 2" "\<bar>d115 - 115 / 100\<bar> \<le> 1 / 2 ^ 53"
  by (simp_all add: d115_def)

lemma d_nz: "d12 \<noteq> 0" "d115 \<noteq> 0"
  by (simp_all add: d12_def d115_def)

lemma d06_times5: "5 * d06 = 3 - 1 / 2 ^ 53"
  by (simp add: d06_def)

lemma d06_form: "x * d06 = 3 * x / 5 - x / (5 * 2 ^ 53)"
proof -
  have "x * d06 = x * (5 * d06) / 5" by simp
  also have "\<dots> = x * (3 - 1 / 2 ^ 53) / 5" by (simp only: d06_times5)
  also have "\<dots> = 3 * x / 5 - x / (5 * 2 ^ 53)" by (simp add: field_simps)
  finally show ?thesis .
qed

text \<open>
  A multiple of five times 0.6 is computed exactly: the product with the double of 0.6
  falls short of the whole number by less than half a rounding step.
\<close>

lemma fl_d06_mult5:
  assumes "j < 2 ^ 50"
  shows "fl (real (5 * j) * d06) = Num (real (3 * j))"
proof (cases "j = 0")
  case True
  then show ?thesis by simp
next
  case False
  define x where "x = real (5 * j) * d06"
  have xf: "x = 3 * real j - real j / 2 ^ 53"
    unfolding x_def using d06_form[of "real (5 * j)"] by simp
  have j1: "1 \<le> real j" using False by simp
  have jlt: "real j < 2 ^ 50" using assms by (metis of_nat_less_iff of_nat_numeral of_nat_power)
  have "real j / 2 ^ 53 \<le> real j" by (simp add: field_simps)
  then have x2j: "2 * real j \<le> x" using xf by linarith
  then have xpos: "0 < x" using j1 by linarith
  have xK: "x < 3 * real j" using xf j1 by simp
  define e where "e = \<lfloor>log 2 x\<rfloor>"
  have lo: "pow2 e \<le> \<bar>x\<bar>" and hi: "\<bar>x\<bar> < pow2 (e + 1)"
    using floor_log2_bounds[OF xpos] xpos by (simp_all add: e_def)
  have "pow2 0 \<le> x" using x2j j1 by (simp add: pow2_def)
  then have e0: "0 \<le> e" unfolding e_def by (rule floor_log2_ge)
  have "x < pow2 52" using xK jlt by (simp add: pow2_def)
  then have e52: "e < 52" unfolding e_def using xpos by (intro floor_log2_less)
  define n where "n = nat (52 - e)"
  define u where "u = pow2 (e - 52)"
  have u: "u = 1 / 2 ^ n" unfolding u_def n_def using pow2_neg_nat[of "e - 52"] e52 by simp
  have "pow2 (e + 1) = pow2 e * 2" using pow2_add[of e 1] by (simp add: pow2_def)
  then have jpe: "real j < pow2 e" using hi x2j xpos by simp
  have "pow2 52 = pow2 e * pow2 (52 - e)" using pow2_add[of e "52 - e"] by simp
  moreover have "pow2 (52 - e) = 2 ^ n" using e52 by (simp add: pow2_def n_def)
  ultimately have pe: "pow2 e * 2 ^ n = 2 ^ 52" by (simp add: pow2_def)
  have "real j * 2 ^ n < pow2 e * 2 ^ n" using jpe by simp
  then have jn: "real j * 2 ^ n < 2 ^ 52" using pe by simp
  have "x / u = real_of_int (int (3 * j) * 2 ^ n) - real j * 2 ^ n / 2 ^ 53"
    by (simp add: xf u field_simps)
  moreover have "0 < real j * 2 ^ n / 2 ^ 53" using j1 by simp
  moreover have "real j * 2 ^ n / 2 ^ 53 < 1 / 2" using jn by simp
  ultimately have "\<bar>x / u - real_of_int (int (3 * j) * 2 ^ n)\<bar> < 1 / 2" by linarith
  then have r: "roundHalfEven (x / u) = int (3 * j) * 2 ^ n" by (rule roundHalfEven_near_int)
  have "fl x = Num (of_int (roundHalfEven (x / pow2 (e - 52))) * pow2 (e - 52))"
    using lo hi e0 e52 by (intro fl_eval) simp_all
  then have "fl x = Num (real_of_int (int (3 * j) * 2 ^ n) * u)"
    using r by (simp add: u_def)
  also have "real_of_int (int (3 * j) * 2 ^ n) * u = real (3 * j)" by (simp add: u)
  finally show ?thesis by (simp add: x_def)
qed

text \<open>
  For a whole number \<open>m\<close> below 2^48 let \<open>t\<close> be the double of \<open>m * 0.6\<close>. The sum
  \<open>t + 32\<close> may be rounded, but its ceiling is never below the exact sum: were it so,
  \<open>t\<close> would lie just above a whole number \<open>K\<close> with \<open>3 m = 5 K\<close>, while the exact
  product lies below \<open>K\<close> and cannot round to a double above it.
\<close>

lemma line_fits:
  assumes "m < 2 ^ 48"
  shows "\<exists>t s. fl (real m * d06) = Num t \<and> 0 \<le> t \<and> fl (t + 32) = Num s
               \<and> t + 32 \<le> of_int \<lceil>s\<rceil> \<and> \<lceil>s\<rceil> < 2 ^ 50"
proof (cases "m = 0")
  case True
  have "fl (0 + 32) = Num 32" by simp
  then show ?thesis using True by (intro exI[of _ 0] exI[of _ 32]) simp
next
  case False
  define x where "x = real m * d06"
  have m1: "1 \<le> real m" using False by simp
  have mlt: "real m < 2 ^ 48" using assms by (metis of_nat_less_iff of_nat_numeral of_nat_power)
  have xf: "x = 3 * real m / 5 - real m / (5 * 2 ^ 53)" unfolding x_def by (rule d06_form)
  have d: "0 < d06" "d06 < 1" by (simp_all add: d06_def)
  have xpos: "0 < x" unfolding x_def using m1 d by simp
  have xm: "x < real m" unfolding x_def using m1 d by simp
  then have xint: "x \<le> real_of_int (int m)" by simp
  have mi: "int m < 2 ^ 53" using assms by simp
  from fl_le_int[OF xpos xint mi] obtain t where t: "fl x = Num t" "0 \<le> t" "t \<le> real m" by auto
  have "\<bar>x\<bar> < pow2 48" using xpos xm mlt by (simp add: pow2_def)
  from fl_near[OF this] t(1) have tx: "\<bar>t - x\<bar> \<le> pow2 (- 6)" by auto
  have "\<bar>t + 32\<bar> < pow2 49" using t(2,3) mlt by (simp add: pow2_def)
  from fl_near[OF this] obtain s where s: "fl (t + 32) = Num s" "\<bar>s - (t + 32)\<bar> \<le> pow2 (- 5)"
    by auto
  have p6: "pow2 (- 6) = 1 / 64" and p5: "pow2 (- 5) = 1 / 32" by (simp_all add: pow2_def)
  have fit: "t + 32 \<le> of_int \<lceil>s\<rceil>"
  proof (rule ccontr)
    assume "\<not> t + 32 \<le> of_int \<lceil>s\<rceil>"
    then have lt: "of_int \<lceil>s\<rceil> < t + 32" by simp
    define K where "K = \<lceil>s\<rceil> - 32"
    have sK: "s \<le> real_of_int K + 32" unfolding K_def using le_of_int_ceiling[of s] by simp
    have tK: "real_of_int K < t" using lt by (simp add: K_def)
    have tK2: "t - real_of_int K \<le> 1 / 32" using sK s(2) p5 by linarith
    have "real m / (5 * 2 ^ 53) < 2 ^ 48 / (5 * 2 ^ 53)" using mlt by (simp add: field_simps)
    then have small: "real m / (5 * 2 ^ 53) < 1 / 160" by simp
    have "0 \<le> real m / (5 * 2 ^ 53)" by simp
    with small have "\<bar>3 * real m / 5 - real_of_int K\<bar> < 1 / 5"
      using xf tx p6 tK tK2 by linarith
    then have "\<bar>3 * real m - 5 * real_of_int K\<bar> < 1" by linarith
    then have "\<bar>real_of_int (3 * int m - 5 * K)\<bar> < 1" by simp
    then have "\<bar>3 * int m - 5 * K\<bar> < 1" by linarith
    then have eq: "3 * int m = 5 * K" by simp
    then have "3 * real m = 5 * real_of_int K" by (metis of_int_mult of_int_numeral of_int_of_nat_eq)
    then have "x = real_of_int K - real m / (5 * 2 ^ 53)" using xf by simp
    then have xK: "x \<le> real_of_int K" by simp
    have "K < 2 ^ 53" using eq mi by linarith
    from fl_le_int[OF xpos xK this] t(1) have "t \<le> real_of_int K" by auto
    with tK show False by simp
  qed
  have "s \<le> t + 32 + 1 / 32" using s(2) p5 by linarith
  moreover have "(2::real) ^ 48 + 32 + 1 / 32 < 2 ^ 49" by simp
  ultimately have "s < 2 ^ 49" using t(3) mlt by linarith
  then have "real_of_int \<lceil>s\<rceil> < 2 ^ 49 + 1" using ceiling_correct[of s] by linarith
  then have "real_of_int \<lceil>s\<rceil> < real_of_int (2 ^ 50)" by simp
  then have "\<lceil>s\<rceil> < 2 ^ 50" by (simp only: of_int_less_iff)
  with t s fit show ?thesis unfolding x_def by blast
qed

section \<open>Label layout\<close>

lemma pad32: "jsmul paddingX (Num 2) = Num 32" "jsmul paddingY (Num 2) = Num 24"
  by (simp_all add: paddingX_def paddingY_def jsmul_def)

lemma approx_not_NaN: "approxTextWidth t (Num r) \<noteq> NaN"
proof -
  have "jsmul (Num (real (length t))) (Num r) = fl (real (length t) * r)"
    by (simp add: jsmul_def)
  moreover have "d06 \<noteq> 0" by (simp add: d06_def)
  ultimately show ?thesis
    unfolding approxTextWidth_def fl_06 by (simp only: jsmul_fl_Num_not_NaN not_False_eq_True)
qed

lemma length_collapseSpaces: "length (collapseSpaces b cs) \<le> length cs"
  by (induction cs arbitrary: b) (auto intro: le_SucI)

lemma length_trim: "length (trim cs) \<le> length cs"
proof -
  have "length (trim cs) \<le> length (rev (dropWhile is_space cs))"
    using length_dropWhile_le[of is_space "rev (dropWhile is_space cs)"] by (simp add: trim_def)
  also have "\<dots> \<le> length cs" by (simp add: length_dropWhile_le)
  finally show ?thesis .
qed

lemma textLen_bound:
  "length label < 2 ^ 53 \<Longrightarrow>
   real (if length (trim (collapseSpaces False label)) = 0 then 1
         else length (trim (collapseSpaces False label))) < 2 ^ 53"
proof -
  assume a: "length label < 2 ^ 53"
  have "length (trim (collapseSpaces False label)) \<le> length label"
    using length_trim[of "collapseSpaces False label"] length_collapseSpaces[of False label]
    by linarith
  then have "length (trim (collapseSpaces False label)) < 2 ^ 53" using a by linarith
  then have "real (length (trim (collapseSpaces False label))) < 2 ^ 53"
    by (metis of_nat_less_iff of_nat_numeral of_nat_power)
  then show ?thesis by simp
qed

lemma targetChars_finite:
  assumes "0 \<le> a" "a < 2 ^ 53"
  shows "\<exists>y. jsceil (jsdiv (Num a) (Num (real maxLines))) = Num y"
proof -
  have "\<bar>a / 3\<bar> < pow2 53" using assms by (simp add: pow2_def)
  from fl_near[OF this] obtain t where "fl (a / 3) = Num t" by auto
  then show ?thesis by (simp add: jsdiv_def maxLines_def)
qed

lemma retryWidth_not_NaN:
  assumes "length label < 2 ^ 53"
  shows "retryWidth label (Num r) \<noteq> NaN"
proof -
  let ?n = "if length (trim (collapseSpaces False label)) = 0 then 1
            else length (trim (collapseSpaces False label))"
  obtain y where y: "jsceil (jsdiv (Num (real ?n)) (Num (real maxLines))) = Num y"
    using targetChars_finite[OF _ textLen_bound[OF assms]] by auto
  have d: "d06 \<noteq> 0" by (simp add: d06_def)
  have "jsmul (Num y) (Num r) = fl (y * r)" by (simp add: jsmul_def)
  then have "jsmul (jsmul (Num y) (Num r)) (Num d06) \<noteq> NaN"
    using d by (simp only: jsmul_fl_Num_not_NaN not_False_eq_True)
  then have "jsadd (jsmul (jsmul (Num y) (Num r)) (Num d06)) (Num 32) \<noteq> NaN"
    by (simp only: jsadd_Num_NaN not_False_eq_True)
  then have "jsceil (jsadd (jsmul (jsmul (Num y) (Num r)) (Num d06)) (Num 32)) \<noteq> NaN"
    by (simp only: jsceil_NaN not_False_eq_True)
  then show ?thesis
    unfolding retryWidth_def Let_def y fl_06 pad32 .
qed

lemma rebuild_width:
  "snd (snd (rebuild label baseFont wd)) =
     (if fst (rebuild label baseFont wd) then wd else jsmax wd (retryWidth label baseFont))"
  by (simp add: rebuild_def Let_def)

lemma rebuild_ok_iff:
  "fst (rebuild label baseFont wd) \<longleftrightarrow> length (fst (snd (rebuild label baseFont wd))) \<le> 3"
  by (auto simp: rebuild_def Let_def maxLines_def)

lemma rebuild_lines_width:
  "fst (snd (rebuild label baseFont wd)) =
     wrapWords baseFont wd (if splitWords [] label = [] then [label] else splitWords [] label) [] []"
  by (simp add: rebuild_def Let_def)

lemma rebuild_width_mono:
  assumes "wd \<noteq> NaN" "retryWidth label baseFont \<noteq> NaN"
  shows "jsle wd (snd (snd (rebuild label baseFont wd)))"
  using assms by (simp add: rebuild_width jsle_refl jsmax_ge)

lemma rebuildLoop_width_mono:
  assumes "retryWidth label baseFont \<noteq> NaN"
  shows "wd \<noteq> NaN \<Longrightarrow> jsle wd (snd (rebuildLoop k label baseFont ls wd))"
proof (induction k arbitrary: ls wd)
  case 0
  then show ?case by (simp add: jsle_refl)
next
  case (Suc k)
  obtain ok ls' width' where r: "rebuild label baseFont wd = (ok, ls', width')"
    by (cases "rebuild label baseFont wd") auto
  have a: "jsle wd width'"
    using rebuild_width_mono[OF Suc.prems assms] r by simp
  then have "width' \<noteq> NaN" using jsle_not_NaN by blast
  then have "jsle width' (snd (rebuildLoop k label baseFont ls' width'))" by (rule Suc.IH)
  with a have "jsle wd (snd (rebuildLoop k label baseFont ls' width'))" by (rule jsle_trans)
  with a show ?case using r by simp
qed

lemma fold_jsmax_not_NaN:
  "a \<noteq> NaN \<Longrightarrow> \<forall>x \<in> set xs. x \<noteq> NaN \<Longrightarrow> fold jsmax xs a \<noteq> NaN"
  by (induction xs arbitrary: a) (simp_all add: jsmax_NaN)

lemma isFinite_jsmul_Num: "c \<noteq> 0 \<Longrightarrow> isFinite (jsmul a (Num c)) \<Longrightarrow> \<exists>r. a = Num r"
  by (cases a) (auto simp: jsmul_def split: if_splits)

lemma layoutLabel_fields:
  "lines (layoutLabel label baseFont minW) =
     (if fst (rebuildLoop 6 label baseFont [] (jsmax minW (Num BASE_W))) = [] then [[]]
      else fst (rebuildLoop 6 label baseFont [] (jsmax minW (Num BASE_W))))"
  "width (layoutLabel label baseFont minW) =
     jsmax (snd (rebuildLoop 6 label baseFont [] (jsmax minW (Num BASE_W))))
       (jsceil (jsadd (fold jsmax (map (\<lambda>t. approxTextWidth t baseFont)
                                      (fst (rebuildLoop 6 label baseFont [] (jsmax minW (Num BASE_W)))))
                                 (Num 0))
                      (jsmul paddingX (Num 2))))"
  "height (layoutLabel label baseFont minW) =
     jsmax (Num BASE_H)
       (jsceil (jsadd (jsmul (Num (real (length (fst (rebuildLoop 6 label baseFont []
                                                       (jsmax minW (Num BASE_W)))))))
                             (jsround (jsmul baseFont (fl 1.15))))
                      (jsmul paddingY (Num 2))))"
  by (simp_all add: layoutLabel_def Let_def split: prod.splits)

text \<open>
  Claim C6, with the numbers it holds for. For every label shorter than 2^53 code units,
  every minimum width other than NaN and every font size whose product with 1.15 is a
  finite double (so the font size is finite and not NaN), the laid-out box is at least
  \<open>BASE_H = 64\<close> high and at least \<open>max minW BASE_W\<close> wide, with \<open>BASE_W = 120\<close>.
\<close>

theorem layoutLabel_floor:
  assumes "minW \<noteq> NaN" and "isFinite (jsmul baseFont (fl 1.15))" and "length label < 2 ^ 53"
  shows "jsle (Num BASE_H) (height (layoutLabel label baseFont minW))
         \<and> jsle (jsmax minW (Num BASE_W)) (width (layoutLabel label baseFont minW))
         \<and> BASE_H = 64 \<and> BASE_W = 120"
proof -
  obtain r where f: "baseFont = Num r"
    using assms(2) isFinite_jsmul_Num[of "5179139571476070 / 4503599627370496" baseFont]
    unfolding c115 by auto
  obtain v where v: "jsmul baseFont (fl 1.15) = Num v"
    using assms(2) by (cases "jsmul baseFont (fl 1.15)") simp_all
  obtain ls width0 where l: "rebuildLoop 6 label baseFont [] (jsmax minW (Num BASE_W)) = (ls, width0)"
    by (cases "rebuildLoop 6 label baseFont [] (jsmax minW (Num BASE_W))") auto
  let ?tw = "fold jsmax (map (\<lambda>t. approxTextWidth t baseFont) ls) (Num 0)"
  let ?L = "layoutLabel label baseFont minW"
  have m0: "jsmax minW (Num BASE_W) \<noteq> NaN" using assms(1) by (simp add: jsmax_NaN)
  have R: "retryWidth label baseFont \<noteq> NaN" unfolding f by (rule retryWidth_not_NaN[OF assms(3)])
  have base: "jsle (jsmax minW (Num BASE_W)) width0"
    using rebuildLoop_width_mono[OF R m0, of 6 "[]"] l by simp
  then have w0: "width0 \<noteq> NaN" using jsle_not_NaN by blast
  have "?tw \<noteq> NaN" unfolding f by (rule fold_jsmax_not_NaN) (auto simp: approx_not_NaN)
  then have c: "jsceil (jsadd ?tw (jsmul paddingX (Num 2))) \<noteq> NaN"
    by (simp add: pad32 jsceil_NaN jsadd_Num_NaN)
  have wd: "width ?L = jsmax width0 (jsceil (jsadd ?tw (jsmul paddingX (Num 2))))"
    using l by (simp add: layoutLabel_def Let_def)
  have "jsle width0 (width ?L)" unfolding wd by (rule jsmax_ge(1)[OF w0 c])
  with base have W: "jsle (jsmax minW (Num BASE_W)) (width ?L)" by (rule jsle_trans)
  have h: "height ?L = jsmax (Num BASE_H)
             (jsceil (jsadd (jsmul (Num (real (length ls))) (jsround (Num v))) (jsmul paddingY (Num 2))))"
    using l v by (simp add: layoutLabel_def Let_def)
  have "jsceil (jsadd (jsmul (Num (real (length ls))) (jsround (Num v))) (jsmul paddingY (Num 2))) \<noteq> NaN"
    by (simp add: pad32 jsceil_NaN jsadd_Num_NaN jsmul_Num_Num)
  then have H: "jsle (Num BASE_H) (height ?L)" unfolding h by (intro jsmax_ge(1)) simp_all
  show ?thesis using W H by (simp add: BASE_H_def BASE_W_def)
qed

text \<open>
  With NaN as minimum width every width of the computation is NaN, and with NaN as font
  size the height is.
\<close>

lemma rebuildLoop_NaN: "snd (rebuildLoop k label baseFont ls NaN) = NaN"
proof (induction k arbitrary: ls)
  case 0
  then show ?case by simp
next
  case (Suc k)
  have "snd (snd (rebuild label baseFont NaN)) = NaN"
    by (simp add: rebuild_width jsmax_def)
  then obtain ok ls' where r: "rebuild label baseFont NaN = (ok, ls', NaN)"
    by (cases "rebuild label baseFont NaN") auto
  show ?case using r Suc.IH by simp
qed

lemma width_NaN_minW: "width (layoutLabel label baseFont NaN) = NaN"
proof -
  have j: "jsmax NaN (Num BASE_W) = NaN" by (simp add: jsmax_def)
  obtain ls width0 where l: "rebuildLoop 6 label baseFont [] NaN = (ls, width0)"
    by (cases "rebuildLoop 6 label baseFont [] NaN") auto
  then have "width0 = NaN" using rebuildLoop_NaN[of 6 label baseFont "[]"] by simp
  then show ?thesis using l by (simp add: layoutLabel_def Let_def j jsmax_def)
qed

lemma height_NaN_font: "height (layoutLabel label NaN minW) = NaN"
proof -
  obtain ls width0 where l: "rebuildLoop 6 label NaN [] (jsmax minW (Num BASE_W)) = (ls, width0)"
    by (cases "rebuildLoop 6 label NaN [] (jsmax minW (Num BASE_W))") auto
  have "jsmul NaN (fl 1.15) = NaN" by (simp add: jsmul_def)
  moreover have "jsmul (Num a) NaN = NaN" for a by (simp add: jsmul_def)
  ultimately show ?thesis using l by (simp add: layoutLabel_def Let_def jsmax_def)
qed

text \<open>
  The renderer passes a node's stored \<open>w\<close> as minimum width and derives the font size
  from its stored \<open>h\<close>. At NaN neither bound of claim C6 holds: the width, or the
  height, is NaN and compares with nothing.
\<close>

theorem layoutLabel_NaN:
  "width (layoutLabel (str ''a'') (Num 20) NaN) = NaN
   \<and> \<not> jsle (jsmax NaN (Num BASE_W)) (width (layoutLabel (str ''a'') (Num 20) NaN))
   \<and> height (layoutLabel (str ''a'') NaN (Num 120)) = NaN
   \<and> \<not> jsle (Num BASE_H) (height (layoutLabel (str ''a'') NaN (Num 120)))"
  by (simp add: width_NaN_minW height_NaN_font)

text \<open>
The loop: a second failed pass changes nothing, so two passes decide the result.
\<close>

lemma step_idem:
  "snd (snd (rebuild label baseFont (snd (snd (rebuild label baseFont wd))))) =
   snd (snd (rebuild label baseFont wd))"
  by (simp add: rebuild_width jsmax_absorb)

lemma attemptWidth_Suc:
  "attemptWidth (Suc k) label baseFont minW =
   snd (snd (rebuild label baseFont (attemptWidth k label baseFont minW)))"
  by (simp add: attemptWidth_def)

lemma attemptWidth_fixed:
  "attemptWidth (Suc (Suc k)) label baseFont minW = attemptWidth (Suc k) label baseFont minW"
  by (simp only: attemptWidth_Suc step_idem)

lemma attemptWidth_const: "attemptWidth (Suc k) label baseFont minW = attemptWidth 1 label baseFont minW"
  by (induction k) (simp_all only: attemptWidth_fixed One_nat_def)

lemma attemptWidth_0: "attemptWidth 0 label baseFont minW = jsmax minW (Num BASE_W)"
  by (simp add: attemptWidth_def)

lemma rebuildLoop_first_ok:
  "rebuild label baseFont width0 = (True, ls, width') \<Longrightarrow> 0 < k \<Longrightarrow>
   rebuildLoop k label baseFont ls0 width0 = (ls, width')"
  by (cases k) simp_all

lemma rebuildLoop_stuck:
  "rebuild label baseFont width0 = (False, ls, width0) \<Longrightarrow> 0 < k \<Longrightarrow>
   rebuildLoop k label baseFont ls0 width0 = (ls, width0)"
proof (induction k arbitrary: ls0)
  case 0
  then show ?case by simp
next
  case (Suc k)
  then show ?case by (cases k) simp_all
qed

lemma rebuildLoop_second:
  assumes "0 < k"
  shows "rebuildLoop k label baseFont ls0 (snd (snd (rebuild label baseFont wd))) =
         (fst (snd (rebuild label baseFont (snd (snd (rebuild label baseFont wd))))),
          snd (snd (rebuild label baseFont wd)))"
proof -
  let ?w1 = "snd (snd (rebuild label baseFont wd))"
  obtain ok ls2 w2 where r: "rebuild label baseFont ?w1 = (ok, ls2, w2)"
    by (cases "rebuild label baseFont ?w1") auto
  have w2: "w2 = ?w1" using step_idem[of label baseFont wd] r by simp
  show ?thesis
  proof (cases ok)
    case True
    then show ?thesis using rebuildLoop_first_ok[of label baseFont ?w1 ls2 w2 k ls0] r w2 assms by simp
  next
    case False
    then show ?thesis using rebuildLoop_stuck[of label baseFont ?w1 ls2 k ls0] r w2 assms by simp
  qed
qed

lemma rebuildLoop_cap:
  "rebuildLoop (Suc (Suc k)) label baseFont ls wd = rebuildLoop 2 label baseFont ls wd"
proof -
  obtain ok ls1 w1 where r: "rebuild label baseFont wd = (ok, ls1, w1)"
    by (cases "rebuild label baseFont wd") auto
  show ?thesis
  proof (cases ok)
    case True
    then show ?thesis using r by (simp add: numeral_2_eq_2)
  next
    case False
    have w1: "w1 = snd (snd (rebuild label baseFont wd))" using r by simp
    have "rebuildLoop (Suc k) label baseFont ls1 w1 = rebuildLoop (Suc 0) label baseFont ls1 w1"
      unfolding w1 by (simp only: rebuildLoop_second zero_less_Suc)
    then show ?thesis using r False by (simp add: numeral_2_eq_2)
  qed
qed

lemma rebuildLoop_two:
  "rebuildLoop 2 label baseFont ls wd =
     (if fst (rebuild label baseFont wd) then snd (rebuild label baseFont wd)
      else (fst (snd (rebuild label baseFont (snd (snd (rebuild label baseFont wd))))),
            snd (snd (rebuild label baseFont wd))))"
proof -
  obtain ok ls1 w1 where r: "rebuild label baseFont wd = (ok, ls1, w1)"
    by (cases "rebuild label baseFont wd") auto
  have w1: "w1 = snd (snd (rebuild label baseFont wd))" using r by simp
  have "rebuildLoop (Suc 0) label baseFont ls1 w1 =
        (fst (snd (rebuild label baseFont w1)), w1)"
    unfolding w1 by (simp only: rebuildLoop_second zero_less_Suc)
  then show ?thesis using r by (simp add: numeral_2_eq_2)
qed

lemma rebuildLoop_six:
  "rebuildLoop 6 label baseFont ls wd = rebuildLoop 2 label baseFont ls wd"
proof -
  have "(6::nat) = Suc (Suc 4)" by simp
  then show ?thesis by (simp only: rebuildLoop_cap)
qed

lemma rebuildLoop_six_lines:
  "\<exists>wd. fst (rebuildLoop 6 label baseFont ls w0) = fst (snd (rebuild label baseFont wd))"
  unfolding rebuildLoop_six rebuildLoop_two by auto

lemma loop_result:
  "rebuildLoop 6 label baseFont [] (attemptWidth 0 label baseFont minW) =
     (if fst (rebuild label baseFont (attemptWidth 0 label baseFont minW))
      then snd (rebuild label baseFont (attemptWidth 0 label baseFont minW))
      else (fst (snd (rebuild label baseFont (attemptWidth 1 label baseFont minW))),
            attemptWidth 1 label baseFont minW))"
  unfolding rebuildLoop_six rebuildLoop_two by (simp add: attemptWidth_def)

lemma attempt_ok_iff:
  "(\<exists>k<6. fst (rebuild label baseFont (attemptWidth k label baseFont minW))) \<longleftrightarrow>
   fst (rebuild label baseFont (attemptWidth 0 label baseFont minW))
   \<or> fst (rebuild label baseFont (attemptWidth 1 label baseFont minW))"
proof
  assume "\<exists>k<6. fst (rebuild label baseFont (attemptWidth k label baseFont minW))"
  then obtain k where k: "fst (rebuild label baseFont (attemptWidth k label baseFont minW))"
    by blast
  show "fst (rebuild label baseFont (attemptWidth 0 label baseFont minW))
        \<or> fst (rebuild label baseFont (attemptWidth 1 label baseFont minW))"
  proof (cases k)
    case 0
    with k show ?thesis by simp
  next
    case (Suc j)
    with k show ?thesis by (simp only: attemptWidth_const) simp
  qed
next
  assume a: "fst (rebuild label baseFont (attemptWidth 0 label baseFont minW))
        \<or> fst (rebuild label baseFont (attemptWidth 1 label baseFont minW))"
  have "(0::nat) < 6" "(1::nat) < 6" by simp_all
  with a show "\<exists>k<6. fst (rebuild label baseFont (attemptWidth k label baseFont minW))"
    by blast
qed

text \<open>
No line is longer than the label and one more code unit.
\<close>

lemma wrapWords_length:
  "t \<in> set (wrapWords baseFont wd wds ls cur) \<Longrightarrow>
   t \<in> set ls \<or> length t \<le> length cur + sum_list (map (\<lambda>w. Suc (length w)) wds)"
proof (induction wds arbitrary: ls cur)
  case Nil
  then show ?case by (auto split: if_splits)
next
  case (Cons w wds)
  let ?test = "if cur = [] then w else cur @ [32] @ w"
  have lt: "length ?test \<le> length cur + Suc (length w)" by simp
  show ?case
  proof (cases "jsle (approxTextWidth ?test baseFont) (jssub wd (jsmul paddingX (Num 2)))")
    case True
    then have "t \<in> set (wrapWords baseFont wd wds ls ?test)"
      using Cons.prems by (simp add: Let_def)
    from Cons.IH[OF this] lt show ?thesis by auto
  next
    case False
    then have "t \<in> set (wrapWords baseFont wd wds (if cur = [] then ls else ls @ [cur]) w)"
      using Cons.prems by (simp add: Let_def)
    from Cons.IH[OF this] show ?thesis by (auto split: if_splits)
  qed
qed

lemma splitWords_bound:
  "sum_list (map (\<lambda>w. Suc (length w)) (splitWords cur cs)) \<le> Suc (length cur + length cs)"
proof (induction cs arbitrary: cur)
  case Nil
  then show ?case by simp
next
  case (Cons c cs)
  show ?case
    using Cons.IH[of "[]"] Cons.IH[of "cur @ [c]"] by auto
qed

lemma rebuild_line_length:
  assumes "t \<in> set (fst (snd (rebuild label baseFont wd)))"
  shows "length t \<le> Suc (length label)"
proof -
  let ?wds = "if splitWords [] label = [] then [label] else splitWords [] label"
  have "t \<in> set (wrapWords baseFont wd ?wds [] [])"
    using assms by (simp only: rebuild_lines_width)
  from wrapWords_length[OF this]
  have "length t \<le> sum_list (map (\<lambda>w. Suc (length w)) ?wds)" by simp
  also have "\<dots> \<le> Suc (length label)"
    using splitWords_bound[of "[]" label] by simp
  finally show ?thesis .
qed

text \<open>
  At a whole font size every returned line fits the returned width less the padding.
\<close>

lemma approx_nat_font:
  assumes "length t * F < 2 ^ 53"
  shows "approxTextWidth t (Num (real F)) = fl (real (length t * F) * d06)"
proof -
  have "jsmul (Num (real (length t))) (Num (real F)) = fl (real (length t * F))"
    by (simp add: jsmul_def)
  also have "\<dots> = Num (real (length t * F))" using assms by (rule fl_nat)
  finally show ?thesis unfolding approxTextWidth_def fl_06 by (simp only: jsmul_Num)
qed

lemma fold_jsmax_Num:
  assumes "\<forall>x \<in> set xs. \<exists>a. x = Num a"
  shows "\<exists>T. fold jsmax xs (Num b) = Num T \<and> b \<le> T \<and> (\<forall>a. Num a \<in> set xs \<longrightarrow> a \<le> T)
              \<and> (T = b \<or> Num T \<in> set xs)"
  using assms
proof (induction xs arbitrary: b)
  case Nil
  then show ?case by simp
next
  case (Cons x xs)
  then obtain a where a: "x = Num a" by auto
  have m: "jsmax x (Num b) = Num (max a b)" by (simp add: a jsmax_def max_def)
  from Cons.prems have "\<forall>x \<in> set xs. \<exists>a. x = Num a" by simp
  from Cons.IH[OF this, of "max a b"] obtain T where
    T: "fold jsmax xs (Num (max a b)) = Num T" "max a b \<le> T"
       "\<forall>a. Num a \<in> set xs \<longrightarrow> a \<le> T" "T = max a b \<or> Num T \<in> set xs"
    by auto
  have "T = b \<or> Num T \<in> set (x # xs)" using T(4) a by (auto simp: max_def split: if_splits)
  moreover have "\<forall>c. Num c \<in> set (x # xs) \<longrightarrow> c \<le> T" using T(2,3) a by auto
  ultimately show ?case using T(1,2) m by auto
qed

lemma jssub_ge_int:
  assumes "jsle (Num (of_int N)) v" "32 \<le> N" "N < 2 ^ 50"
  shows "jsle (Num (of_int N - 32)) (jssub v (jsmul paddingX (Num 2)))"
proof (cases v)
  case (Num W)
  have "0 \<le> N - 32" "N - 32 < 2 ^ 53" using assms(2,3) by simp_all
  moreover have "real_of_int (N - 32) \<le> W + - 32" using assms(1) Num by simp
  ultimately have "jsle (Num (of_int (N - 32))) (fl (W + - 32))" by (rule fl_ge_int)
  then show ?thesis using Num by (simp add: jssub_def pad32)
next
  case NaN
  then show ?thesis using assms(1) by simp
next
  case PosInfinity
  then show ?thesis by (simp add: jssub_def pad32)
next
  case NegInfinity
  then show ?thesis using assms(1) by simp
qed

lemma whole_font_lines_fit:
  assumes minW: "minW \<noteq> NaN" and len32: "length label < 2 ^ 32" and F16: "F < 2 ^ 16"
  shows "\<forall>t \<in> set (lines (layoutLabel label (Num (real F)) minW)).
           jsle (approxTextWidth t (Num (real F)))
                (jssub (width (layoutLabel label (Num (real F)) minW)) (jsmul paddingX (Num 2)))"
proof
  let ?f = "Num (real F)"
  let ?L = "layoutLabel label ?f minW"
  fix t assume t: "t \<in> set (lines ?L)"
  have len: "Suc (length label) * F < 2 ^ 48"
  proof -
    have "Suc (length label) * F \<le> 2 ^ 32 * (2 ^ 16 - 1)"
      using len32 F16 by (intro mult_le_mono) simp_all
    also have "\<dots> < (2::nat) ^ 48" by simp
    finally show ?thesis .
  qed
  obtain ls width0 where l: "rebuildLoop 6 label ?f [] (jsmax minW (Num BASE_W)) = (ls, width0)"
    by (cases "rebuildLoop 6 label ?f [] (jsmax minW (Num BASE_W))") auto
  let ?xs = "map (\<lambda>t. approxTextWidth t ?f) ls"
  have lns: "lines ?L = (if ls = [] then [[]] else ls)"
    using l by (simp add: layoutLabel_def Let_def)
  have wd: "width ?L = jsmax width0 (jsceil (jsadd (fold jsmax ?xs (Num 0)) (jsmul paddingX (Num 2))))"
    using l by (simp add: layoutLabel_def Let_def)
  have short: "length u \<le> Suc (length label)" if "u \<in> set ls" for u
  proof -
    obtain w' where "fst (rebuildLoop 6 label ?f [] (jsmax minW (Num BASE_W))) =
                     fst (snd (rebuild label ?f w'))"
      using rebuildLoop_six_lines by blast
    then have "u \<in> set (fst (snd (rebuild label ?f w')))" using l that by simp
    then show ?thesis by (rule rebuild_line_length)
  qed
  have bound: "length u * F < 2 ^ 48" if "length u \<le> Suc (length label)" for u
  proof -
    have "length u * F \<le> Suc (length label) * F" using that by (rule mult_le_mono1)
    with len show ?thesis by linarith
  qed
  have p: "(2::nat) ^ 48 \<le> 2 ^ 53" by (intro power_increasing) simp_all
  have ap: "approxTextWidth u ?f = fl (real (length u * F) * d06)"
    if "length u \<le> Suc (length label)" for u
    using bound[OF that] p by (intro approx_nat_font) linarith
  have fin: "\<exists>a. approxTextWidth u ?f = Num a \<and> 0 \<le> a" if "length u \<le> Suc (length label)" for u
    using line_fits[OF bound[OF that]] ap[OF that] by auto
  have "\<forall>x \<in> set ?xs. \<exists>a. x = Num a" using fin short by auto
  from fold_jsmax_Num[OF this, of 0] obtain T where
    T: "fold jsmax ?xs (Num 0) = Num T" "0 \<le> T" "\<forall>a. Num a \<in> set ?xs \<longrightarrow> a \<le> T"
       "T = 0 \<or> Num T \<in> set ?xs"
    by auto
  have "\<exists>m. m < 2 ^ 48 \<and> Num T = fl (real m * d06)"
  proof (cases "T = 0")
    case True
    then show ?thesis by (intro exI[of _ 0]) simp
  next
    case False
    with T(4) obtain u where u: "u \<in> set ls" "Num T = approxTextWidth u ?f" by auto
    then show ?thesis using ap[OF short[OF u(1)]] bound[OF short[OF u(1)]] by auto
  qed
  then obtain m where m: "m < 2 ^ 48" "fl (real m * d06) = Num T" by auto
  from line_fits[OF m(1)] m(2) obtain s where
    s: "fl (T + 32) = Num s" "T + 32 \<le> of_int \<lceil>s\<rceil>" "\<lceil>s\<rceil> < 2 ^ 50"
    by auto
  have ce: "jsceil (jsadd (fold jsmax ?xs (Num 0)) (jsmul paddingX (Num 2))) = Num (of_int \<lceil>s\<rceil>)"
    by (simp add: T(1) pad32 s(1))
  have R: "retryWidth label ?f \<noteq> NaN"
  proof (rule retryWidth_not_NaN)
    have "(2::nat) ^ 32 \<le> 2 ^ 53" by (intro power_increasing) simp_all
    with len32 show "length label < 2 ^ 53" by linarith
  qed
  have m0: "jsmax minW (Num BASE_W) \<noteq> NaN" using minW by (simp add: jsmax_NaN)
  have "jsle (jsmax minW (Num BASE_W)) width0"
    using rebuildLoop_width_mono[OF R m0, of 6 "[]"] l by simp
  then have w0: "width0 \<noteq> NaN" using jsle_not_NaN by blast
  have big: "jsle (Num (of_int \<lceil>s\<rceil>)) (width ?L)"
    unfolding wd ce by (rule jsmax_ge(2)[OF w0]) simp
  have "real_of_int 32 \<le> real_of_int \<lceil>s\<rceil>" using s(2) T(2) by linarith
  then have s32: "32 \<le> \<lceil>s\<rceil>" by (simp only: of_int_le_iff)
  have avail: "jsle (Num (of_int \<lceil>s\<rceil> - 32)) (jssub (width ?L) (jsmul paddingX (Num 2)))"
    using big s32 s(3) by (rule jssub_ge_int)
  have "\<exists>a. approxTextWidth t ?f = Num a \<and> a \<le> T"
  proof (cases "ls = []")
    case True
    with t lns have "t = []" by simp
    then have "approxTextWidth t ?f = Num 0" using ap[of "[]"] by simp
    with T(2) show ?thesis by simp
  next
    case False
    with t lns have tl: "t \<in> set ls" by simp
    from fin[OF short[OF tl]] obtain a where a: "approxTextWidth t ?f = Num a" by auto
    then have "Num a \<in> set ?xs" using tl by force
    with T(3) a show ?thesis by simp
  qed
  then obtain a where a: "approxTextWidth t ?f = Num a" "a \<le> T" by auto
  have "jsle (Num a) (Num (of_int \<lceil>s\<rceil> - 32))" using a(2) s(2) by simp
  then show "jsle (approxTextWidth t ?f) (jssub (width ?L) (jsmul paddingX (Num 2)))"
    unfolding a(1) using avail by (rule jsle_trans)
qed

text \<open>
  Claim C5, as the code has it. The result has at most three lines exactly when one of
  the six wrapping passes produced at most three; when none did, the lines of the last
  pass are returned as they are. A pass that produced more than three lines leaves the
  larger of its width and the width for a third of the collapsed text's length; a second
  such pass leaves the width as it is, so from the second pass on every pass repeats the
  one before and the loop of six gives what a loop of two would. When the minimum width
  is not NaN, the font size is a whole number from 0 to 65535 and the label is shorter
  than 2^32 code units, every returned line's estimated width is at most the returned
  width less twice the horizontal padding.
\<close>

theorem layoutLabel_lines_fit:
  "(length (lines (layoutLabel label baseFont minW)) \<le> 3 \<longleftrightarrow>
      (\<exists>k<6. fst (rebuild label baseFont (attemptWidth k label baseFont minW))))
   \<and> ((\<forall>k<6. \<not> fst (rebuild label baseFont (attemptWidth k label baseFont minW))) \<longrightarrow>
        lines (layoutLabel label baseFont minW) =
          fst (snd (rebuild label baseFont (attemptWidth 5 label baseFont minW))))
   \<and> (\<forall>wd. \<not> fst (rebuild label baseFont wd) \<longrightarrow>
          snd (snd (rebuild label baseFont wd)) =
            jsmax wd
              (jsceil (jsadd
                 (jsmul (jsmul (jsceil (jsdiv
                                  (Num (real (max 1 (length (trim (collapseSpaces False label))))))
                                  (Num 3)))
                               baseFont)
                        (fl 0.6))
                 (Num 32))))
   \<and> (\<forall>k. attemptWidth (Suc (Suc k)) label baseFont minW = attemptWidth (Suc k) label baseFont minW)
   \<and> attemptWidth 0 label baseFont minW = jsmax minW (Num 120)
   \<and> rebuildLoop 6 label baseFont [] (attemptWidth 0 label baseFont minW) =
       rebuildLoop 2 label baseFont [] (attemptWidth 0 label baseFont minW)
   \<and> (minW \<noteq> NaN \<and> baseFont = Num (real F) \<and> F < 2 ^ 16 \<and> length label < 2 ^ 32 \<longrightarrow>
        (\<forall>t \<in> set (lines (layoutLabel label baseFont minW)).
           jsle (approxTextWidth t baseFont)
                (jssub (width (layoutLabel label baseFont minW)) (jsmul paddingX (Num 2)))))"
proof (intro conjI allI impI)
  let ?L = "layoutLabel label baseFont minW"
  let ?ok = "\<lambda>k. fst (rebuild label baseFont (attemptWidth k label baseFont minW))"
  let ?ls = "fst (rebuildLoop 6 label baseFont [] (attemptWidth 0 label baseFont minW))"
  have lns: "lines ?L = (if ?ls = [] then [[]] else ?ls)"
    by (simp only: layoutLabel_fields attemptWidth_0)
  have ls: "?ls = (if ?ok 0 then fst (snd (rebuild label baseFont (attemptWidth 0 label baseFont minW)))
                   else fst (snd (rebuild label baseFont (attemptWidth 1 label baseFont minW))))"
    by (simp add: loop_result)
  have cnt: "length ?ls \<le> 3 \<longleftrightarrow> ?ok 0 \<or> ?ok 1"
    unfolding ls using rebuild_ok_iff[of label baseFont "attemptWidth 0 label baseFont minW"]
      rebuild_ok_iff[of label baseFont "attemptWidth 1 label baseFont minW"] by auto
  have "length (lines ?L) \<le> 3 \<longleftrightarrow> length ?ls \<le> 3" unfolding lns by auto
  then show "length (lines ?L) \<le> 3 \<longleftrightarrow> (\<exists>k<6. ?ok k)"
    using cnt by (simp only: attempt_ok_iff)
  show "lines ?L = fst (snd (rebuild label baseFont (attemptWidth 5 label baseFont minW)))"
    if no: "\<forall>k<6. \<not> ?ok k"
  proof -
    have n0: "\<not> ?ok 0" and n1: "\<not> ?ok 1" using no by simp_all
    have "\<not> length ?ls \<le> 3" using cnt n0 n1 by simp
    then have "?ls \<noteq> []" by auto
    then have "lines ?L = ?ls" using lns by simp
    also have "\<dots> = fst (snd (rebuild label baseFont (attemptWidth 1 label baseFont minW)))"
      using ls n0 by simp
    also have "attemptWidth 1 label baseFont minW = attemptWidth 5 label baseFont minW"
      using attemptWidth_const[of 4 label baseFont minW] by simp
    finally show ?thesis .
  qed
  show "attemptWidth (Suc (Suc k)) label baseFont minW = attemptWidth (Suc k) label baseFont minW"
    for k by (rule attemptWidth_fixed)
  show "rebuildLoop 6 label baseFont [] (attemptWidth 0 label baseFont minW) =
        rebuildLoop 2 label baseFont [] (attemptWidth 0 label baseFont minW)"
    by (rule rebuildLoop_six)
  show "attemptWidth 0 label baseFont minW = jsmax minW (Num 120)"
    by (simp add: attemptWidth_0 BASE_W_def)
  show "\<forall>t \<in> set (lines ?L).
           jsle (approxTextWidth t baseFont) (jssub (width ?L) (jsmul paddingX (Num 2)))"
    if "minW \<noteq> NaN \<and> baseFont = Num (real F) \<and> F < 2 ^ 16 \<and> length label < 2 ^ 32"
    using that whole_font_lines_fit[of minW label F] by simp
next
  fix wd
  assume f: "\<not> fst (rebuild label baseFont wd)"
  have m: "max 1 n = (if n = 0 then 1 else n)" for n :: nat
    by (cases n) simp_all
  have "retryWidth label baseFont =
        jsceil (jsadd
                 (jsmul (jsmul (jsceil (jsdiv
                                  (Num (real (max 1 (length (trim (collapseSpaces False label))))))
                                  (Num 3)))
                               baseFont)
                        (fl 0.6))
                 (Num 32))"
    unfolding retryWidth_def Let_def pad32 m by (simp add: maxLines_def)
  then show "snd (snd (rebuild label baseFont wd)) =
            jsmax wd
              (jsceil (jsadd
                 (jsmul (jsmul (jsceil (jsdiv
                                  (Num (real (max 1 (length (trim (collapseSpaces False label))))))
                                  (Num 3)))
                               baseFont)
                        (fl 0.6))
                 (Num 32)))"
    using f by (simp only: rebuild_width if_False)
qed

text \<open>
Evaluation at font size 20.
\<close>

lemma approx20:
  assumes "length t < 2 ^ 40"
  shows "approxTextWidth t (Num 20) = Num (12 * real (length t))"
proof -
  have "length t * 20 < 2 ^ 40 * 20" using assms by simp
  also have "\<dots> < (2::nat) ^ 53" by simp
  finally have a: "length t * 20 < 2 ^ 53" .
  have b: "4 * length t < 2 ^ 50" using assms by simp
  have "approxTextWidth t (Num (real 20)) = fl (real (length t * 20) * d06)"
    using a by (rule approx_nat_font)
  also have "length t * 20 = 5 * (4 * length t)" by simp
  also have "fl (real (5 * (4 * length t)) * d06) = Num (real (3 * (4 * length t)))"
    using b by (rule fl_d06_mult5)
  finally show ?thesis by simp
qed

lemma avail_120: "jssub (Num 120) (jsmul paddingX (Num 2)) = Num 88"
  by (simp add: jssub_def pad32)

lemma avail_164: "jssub (Num 164) (jsmul paddingX (Num 2)) = Num 132"
  by (simp add: jssub_def pad32)

lemma lineHeight20: "jsround (jsmul (Num 20) (fl 1.15)) = Num 23"
proof -
  have "fl (20 * (5179139571476070 / 4503599627370496)) = Num 23"
    using fl_eval[of 4 "20 * (5179139571476070 / 4503599627370496)"]
    by (simp add: pow2_def roundHalfEven_def Let_def)
  then show ?thesis unfolding c115 jsmul_Num by simp
qed

lemma third_19: "jsceil (jsdiv (Num 19) (Num 3)) = Num 7"
proof -
  have "fl (19 / 3) = Num (7130699410003285 / 1125899906842624)"
    using fl_eval[of 2 "19 / 3"] by (simp add: pow2_def roundHalfEven_def Let_def)
  then show ?thesis by (simp add: jsdiv_def)
qed

lemma third_31: "jsceil (jsdiv (Num 31) (Num 3)) = Num 11"
proof -
  have "fl (31 / 3) = Num (5817149518686891 / 562949953421312)"
    using fl_eval[of 3 "31 / 3"] by (simp add: pow2_def roundHalfEven_def Let_def)
  then show ?thesis by (simp add: jsdiv_def)
qed

lemma retry20:
  assumes "c < 2 ^ 40"
  shows "jsceil (jsadd (jsmul (jsmul (Num (real c)) (Num 20)) (fl 0.6)) (jsmul paddingX (Num 2)))
         = Num (12 * real c + 32)"
proof -
  have "c * 20 < 2 ^ 40 * 20" using assms by simp
  also have "\<dots> < (2::nat) ^ 53" by simp
  finally have a: "c * 20 < 2 ^ 53" .
  have b: "4 * c < 2 ^ 50" using assms by simp
  have "real c * 20 = real (5 * (4 * c))" by simp
  then have "jsmul (Num (real c)) (Num 20) = fl (real (5 * (4 * c)))" by (simp only: jsmul_Num)
  also have "\<dots> = Num (real (5 * (4 * c)))" using a by (intro fl_nat) simp
  finally have "jsmul (jsmul (Num (real c)) (Num 20)) (fl 0.6) = fl (real (5 * (4 * c)) * d06)"
    unfolding fl_06 by (simp only: jsmul_Num)
  also have "\<dots> = Num (real (3 * (4 * c)))" using b by (rule fl_d06_mult5)
  finally have m: "jsmul (jsmul (Num (real c)) (Num 20)) (fl 0.6) = Num (real (12 * c))" by simp
  have "12 * c + 32 < 2 ^ 53"
  proof -
    have "12 * c + 32 < 12 * 2 ^ 40 + 32" using assms by simp
    also have "\<dots> < (2::nat) ^ 53" by simp
    finally show ?thesis .
  qed
  then have "fl (real (12 * c + 32)) = Num (real (12 * c + 32))" by (rule fl_nat)
  then have "jsadd (Num (real (12 * c))) (Num 32) = Num (real (12 * c + 32))" by simp
  then show ?thesis unfolding m pad32 by simp
qed

text \<open>
  Four words of four letters at font size 20 never fit two to a line: the recomputed width
  stays at 120 and all six passes give four lines.
\<close>

lemma four_words_str:
  "str ''aaaa bbbb cccc dddd'' =
   [97, 97, 97, 97, 32, 98, 98, 98, 98, 32, 99, 99, 99, 99, 32, 100, 100, 100, 100]"
  by (simp add: str_def)

lemma four_words_split:
  "splitWords [] [97, 97, 97, 97, 32, 98, 98, 98, 98, 32, 99, 99, 99, 99, 32, 100, 100, 100, 100] =
   [[97, 97, 97, 97], [98, 98, 98, 98], [99, 99, 99, 99], [100, 100, 100, 100]]"
  by (simp add: is_space_def)

lemma four_words_wrap:
  "wrapWords (Num 20) (Num 120)
     [[97, 97, 97, 97], [98, 98, 98, 98], [99, 99, 99, 99], [100, 100, 100, 100]] [] [] =
   [[97, 97, 97, 97], [98, 98, 98, 98], [99, 99, 99, 99], [100, 100, 100, 100]]"
  by (simp add: approx20 avail_120)

lemma four_words_trim:
  "trim (collapseSpaces False
     [97, 97, 97, 97, 32, 98, 98, 98, 98, 32, 99, 99, 99, 99, 32, 100, 100, 100, 100]) =
   [97, 97, 97, 97, 32, 98, 98, 98, 98, 32, 99, 99, 99, 99, 32, 100, 100, 100, 100]"
  by (simp add: is_space_def trim_def)

lemma four_words_retry:
  "retryWidth [97, 97, 97, 97, 32, 98, 98, 98, 98, 32, 99, 99, 99, 99, 32, 100, 100, 100, 100] (Num 20)
   = Num 116"
proof -
  have "jsceil (jsadd (jsmul (jsmul (Num (real 7)) (Num 20)) (fl 0.6)) (jsmul paddingX (Num 2)))
        = Num (12 * real 7 + 32)"
    by (rule retry20) simp
  then show ?thesis
    unfolding retryWidth_def four_words_trim Let_def by (simp add: maxLines_def third_19)
qed

lemma four_words_rebuild:
  "rebuild [97, 97, 97, 97, 32, 98, 98, 98, 98, 32, 99, 99, 99, 99, 32, 100, 100, 100, 100]
     (Num 20) (Num 120) =
   (False, [[97, 97, 97, 97], [98, 98, 98, 98], [99, 99, 99, 99], [100, 100, 100, 100]], Num 120)"
  apply (simp only: rebuild_def four_words_split four_words_retry Let_def)
  apply (simp only: four_words_wrap list.simps if_False)
  apply (simp add: maxLines_def jsmax_def)
  done

lemma four_words_loop:
  "rebuildLoop 6 (str ''aaaa bbbb cccc dddd'') (Num 20) [] (jsmax (Num 120) (Num BASE_W)) =
   ([[97, 97, 97, 97], [98, 98, 98, 98], [99, 99, 99, 99], [100, 100, 100, 100]], Num 120)"
proof -
  have "jsmax (Num 120) (Num BASE_W) = Num 120" by (simp add: jsmax_def BASE_W_def)
  then show ?thesis
    using rebuildLoop_stuck[OF four_words_rebuild, of 6 "[]"]
    by (simp only: four_words_str)
qed

text \<open>
  Claim C5 fails in its first part, and in its second for a node whose stored width is
  NaN. Four words of four letters are returned as four lines, and with NaN as minimum
  width the width is NaN, so that the one line of the label does not fit it.
\<close>

theorem layoutLabel_four_lines:
  "length (lines (layoutLabel (str ''aaaa bbbb cccc dddd'') (Num 20) (Num 120))) = 4
   \<and> lines (layoutLabel (str ''a'') (Num 20) NaN) = [str ''a'']
   \<and> \<not> jsle (approxTextWidth (str ''a'') (Num 20))
            (jssub (width (layoutLabel (str ''a'') (Num 20) NaN)) (jsmul paddingX (Num 2)))"
proof -
  have four: "length (lines (layoutLabel (str ''aaaa bbbb cccc dddd'') (Num 20) (Num 120))) = 4"
    by (simp only: layoutLabel_fields four_words_loop fst_conv) simp
  have s: "str ''a'' = [97]" by (simp add: str_def)
  have sp: "splitWords [] [97] = [[97]]" by (simp add: is_space_def)
  have wr: "wrapWords (Num 20) NaN [[97]] [] [] = [[97]]"
    by (simp add: jssub_def)
  have rb: "rebuild [97] (Num 20) NaN = (True, [[97]], NaN)"
    apply (simp only: rebuild_def sp Let_def)
    apply (simp only: wr list.simps if_False)
    apply (simp add: maxLines_def)
    done
  have "jsmax NaN (Num BASE_W) = NaN" by (simp add: jsmax_def)
  then have lp: "rebuildLoop 6 [97] (Num 20) [] (jsmax NaN (Num BASE_W)) = ([[97]], NaN)"
    using rebuildLoop_first_ok[OF rb, of 6 "[]"] by simp
  have one: "lines (layoutLabel (str ''a'') (Num 20) NaN) = [str ''a'']"
    unfolding s by (simp only: layoutLabel_fields lp fst_conv) simp
  have "jssub (width (layoutLabel (str ''a'') (Num 20) NaN)) (jsmul paddingX (Num 2)) = NaN"
    by (simp add: width_NaN_minW jssub_def)
  then have "\<not> jsle (approxTextWidth (str ''a'') (Num 20))
            (jssub (width (layoutLabel (str ''a'') (Num 20) NaN)) (jsmul paddingX (Num 2)))"
    by simp
  with four one show ?thesis by simp
qed

text \<open>
  Sixteen letters, each a word: the first pass gives four lines at width 120, the second
  three lines at width 164.
\<close>

lemma letters_str:
  "str ''a b c d e f g h i j k l m n o p'' =
   [97, 32, 98, 32, 99, 32, 100, 32, 101, 32, 102, 32, 103, 32, 104, 32, 105, 32, 106, 32,
    107, 32, 108, 32, 109, 32, 110, 32, 111, 32, 112]"
  by (simp add: str_def)

lemma letters_split:
  "splitWords [] [97, 32, 98, 32, 99, 32, 100, 32, 101, 32, 102, 32, 103, 32, 104, 32, 105, 32,
                  106, 32, 107, 32, 108, 32, 109, 32, 110, 32, 111, 32, 112] =
   [[97], [98], [99], [100], [101], [102], [103], [104], [105], [106], [107], [108], [109],
    [110], [111], [112]]"
  by (simp add: is_space_def)

lemma letters_trim:
  "trim (collapseSpaces False
     [97, 32, 98, 32, 99, 32, 100, 32, 101, 32, 102, 32, 103, 32, 104, 32, 105, 32,
      106, 32, 107, 32, 108, 32, 109, 32, 110, 32, 111, 32, 112]) =
   [97, 32, 98, 32, 99, 32, 100, 32, 101, 32, 102, 32, 103, 32, 104, 32, 105, 32,
    106, 32, 107, 32, 108, 32, 109, 32, 110, 32, 111, 32, 112]"
  by (simp add: is_space_def trim_def)

lemma letters_wrap_120:
  "wrapWords (Num 20) (Num 120)
     [[97], [98], [99], [100], [101], [102], [103], [104], [105], [106], [107], [108], [109],
      [110], [111], [112]] [] [] =
   [[97, 32, 98, 32, 99, 32, 100], [101, 32, 102, 32, 103, 32, 104],
    [105, 32, 106, 32, 107, 32, 108], [109, 32, 110, 32, 111, 32, 112]]"
  by (simp add: approx20 avail_120)

lemma letters_wrap_164:
  "wrapWords (Num 20) (Num 164)
     [[97], [98], [99], [100], [101], [102], [103], [104], [105], [106], [107], [108], [109],
      [110], [111], [112]] [] [] =
   [[97, 32, 98, 32, 99, 32, 100, 32, 101, 32, 102], [103, 32, 104, 32, 105, 32, 106, 32, 107, 32, 108],
    [109, 32, 110, 32, 111, 32, 112]]"
  by (simp add: approx20 avail_164)

lemma letters_retry:
  "retryWidth [97, 32, 98, 32, 99, 32, 100, 32, 101, 32, 102, 32, 103, 32, 104, 32, 105, 32,
               106, 32, 107, 32, 108, 32, 109, 32, 110, 32, 111, 32, 112] (Num 20)
   = Num 164"
proof -
  have "jsceil (jsadd (jsmul (jsmul (Num (real 11)) (Num 20)) (fl 0.6)) (jsmul paddingX (Num 2)))
        = Num (12 * real 11 + 32)"
    by (rule retry20) simp
  then show ?thesis
    unfolding retryWidth_def letters_trim Let_def by (simp add: maxLines_def third_31)
qed

lemma letters_rebuild_120:
  "rebuild [97, 32, 98, 32, 99, 32, 100, 32, 101, 32, 102, 32, 103, 32, 104, 32, 105, 32,
            106, 32, 107, 32, 108, 32, 109, 32, 110, 32, 111, 32, 112] (Num 20) (Num 120) =
   (False, [[97, 32, 98, 32, 99, 32, 100], [101, 32, 102, 32, 103, 32, 104],
            [105, 32, 106, 32, 107, 32, 108], [109, 32, 110, 32, 111, 32, 112]], Num 164)"
  apply (simp only: rebuild_def letters_split letters_retry Let_def)
  apply (simp only: letters_wrap_120 list.simps if_False)
  apply (simp add: maxLines_def jsmax_def)
  done

lemma letters_rebuild_164:
  "rebuild [97, 32, 98, 32, 99, 32, 100, 32, 101, 32, 102, 32, 103, 32, 104, 32, 105, 32,
            106, 32, 107, 32, 108, 32, 109, 32, 110, 32, 111, 32, 112] (Num 20) (Num 164) =
   (True, [[97, 32, 98, 32, 99, 32, 100, 32, 101, 32, 102],
           [103, 32, 104, 32, 105, 32, 106, 32, 107, 32, 108],
           [109, 32, 110, 32, 111, 32, 112]], Num 164)"
  apply (simp only: rebuild_def letters_split letters_retry Let_def)
  apply (simp only: letters_wrap_164 list.simps if_False)
  apply (simp add: maxLines_def)
  done

lemma letters_loop:
  "rebuildLoop 6 (str ''a b c d e f g h i j k l m n o p'') (Num 20) [] (jsmax (Num 120) (Num BASE_W)) =
   ([[97, 32, 98, 32, 99, 32, 100, 32, 101, 32, 102],
     [103, 32, 104, 32, 105, 32, 106, 32, 107, 32, 108],
     [109, 32, 110, 32, 111, 32, 112]], Num 164)"
proof -
  have "jsmax (Num 120) (Num BASE_W) = Num 120" by (simp add: jsmax_def BASE_W_def)
  then show ?thesis
    unfolding letters_str rebuildLoop_six rebuildLoop_two
    by (simp only: letters_rebuild_120 letters_rebuild_164 fst_conv snd_conv if_False)
qed

lemma letters_layout:
  "lines (layoutLabel (str ''a b c d e f g h i j k l m n o p'') (Num 20) (Num 120)) =
     [str ''a b c d e f'', str ''g h i j k l'', str ''m n o p'']"
  "width (layoutLabel (str ''a b c d e f g h i j k l m n o p'') (Num 20) (Num 120)) = Num 164"
  "height (layoutLabel (str ''a b c d e f g h i j k l m n o p'') (Num 20) (Num 120)) = Num 93"
proof -
  show "lines (layoutLabel (str ''a b c d e f g h i j k l m n o p'') (Num 20) (Num 120)) =
     [str ''a b c d e f'', str ''g h i j k l'', str ''m n o p'']"
    by (simp only: layoutLabel_fields letters_loop fst_conv) (simp add: str_def)
  show "width (layoutLabel (str ''a b c d e f g h i j k l m n o p'') (Num 20) (Num 120)) = Num 164"
    by (simp only: layoutLabel_fields letters_loop fst_conv snd_conv)
       (simp add: approx20 jsmax_def pad32)
  show "height (layoutLabel (str ''a b c d e f g h i j k l m n o p'') (Num 20) (Num 120)) = Num 93"
    by (simp only: layoutLabel_fields letters_loop fst_conv snd_conv lineHeight20)
       (simp add: jsmul_Num jsmax_def pad32 BASE_H_def)
qed

theorem layoutLabel_lines_fit_witness:
  "lines (layoutLabel (str ''a b c d e f g h i j k l m n o p'') (Num 20) (Num 120)) =
     [str ''a b c d e f'', str ''g h i j k l'', str ''m n o p'']
   \<and> width (layoutLabel (str ''a b c d e f g h i j k l m n o p'') (Num 20) (Num 120)) = Num 164
   \<and> \<not> fst (rebuild (str ''a b c d e f g h i j k l m n o p'') (Num 20)
                (attemptWidth 0 (str ''a b c d e f g h i j k l m n o p'') (Num 20) (Num 120)))
   \<and> attemptWidth 1 (str ''a b c d e f g h i j k l m n o p'') (Num 20) (Num 120) = Num 164
   \<and> fst (rebuild (str ''a b c d e f g h i j k l m n o p'') (Num 20)
                (attemptWidth 1 (str ''a b c d e f g h i j k l m n o p'') (Num 20) (Num 120)))
   \<and> jsle (approxTextWidth (str ''a b c d e f'') (Num 20)) (jssub (Num 164) (Num 32))
   \<and> jsle (approxTextWidth (str ''g h i j k l'') (Num 20)) (jssub (Num 164) (Num 32))
   \<and> jsle (approxTextWidth (str ''m n o p'') (Num 20)) (jssub (Num 164) (Num 32))"
proof -
  let ?label = "str ''a b c d e f g h i j k l m n o p''"
  let ?L = "layoutLabel ?label (Num 20) (Num 120)"
  have a0: "attemptWidth 0 ?label (Num 20) (Num 120) = Num 120"
    by (simp add: attemptWidth_def jsmax_def BASE_W_def)
  have r0: "\<not> fst (rebuild ?label (Num 20) (Num 120))"
    unfolding letters_str by (simp only: letters_rebuild_120 fst_conv not_False_eq_True)
  have r0w: "snd (snd (rebuild ?label (Num 20) (Num 120))) = Num 164"
    unfolding letters_str by (simp only: letters_rebuild_120 snd_conv)
  have a1: "attemptWidth 1 ?label (Num 20) (Num 120) = Num 164"
    using attemptWidth_Suc[of 0 ?label "Num 20" "Num 120"] a0 r0w by simp
  have r1: "fst (rebuild ?label (Num 20) (Num 164))"
    unfolding letters_str by (simp only: letters_rebuild_164 fst_conv)
  have hyp: "Num 120 \<noteq> NaN \<and> Num 20 = Num (real 20) \<and> (20::nat) < 2 ^ 16 \<and> length ?label < 2 ^ 32"
    by (simp add: str_def)
  from layoutLabel_lines_fit[of ?label "Num 20" "Num 120" 20] hyp
  have fit: "\<forall>t \<in> set (lines ?L). jsle (approxTextWidth t (Num 20)) (jssub (width ?L) (jsmul paddingX (Num 2)))"
    by blast
  have "\<forall>t \<in> set [str ''a b c d e f'', str ''g h i j k l'', str ''m n o p''].
          jsle (approxTextWidth t (Num 20)) (jssub (Num 164) (Num 32))"
    using fit unfolding letters_layout pad32 .
  then show ?thesis
    using a0 a1 r0 r1 by (simp add: letters_layout)
qed

theorem layoutLabel_floor_witness:
  "jsle (Num 64) (height (layoutLabel (str ''a b c d e f g h i j k l m n o p'') (Num 20) (Num 120)))
   \<and> jsle (jsmax (Num 120) (Num 120))
          (width (layoutLabel (str ''a b c d e f g h i j k l m n o p'') (Num 20) (Num 120)))
   \<and> height (layoutLabel (str ''a b c d e f g h i j k l m n o p'') (Num 20) (Num 120)) = Num 93
   \<and> width (layoutLabel (str ''a b c d e f g h i j k l m n o p'') (Num 20) (Num 120)) = Num 164
   \<and> isFinite (jsmul (Num 20) (fl 1.15))"
proof -
  let ?label = "str ''a b c d e f g h i j k l m n o p''"
  have f: "isFinite (jsmul (Num 20) (fl 1.15))"
  proof -
    have "jsround (jsmul (Num 20) (fl 1.15)) = Num 23" by (rule lineHeight20)
    then show ?thesis by (cases "jsmul (Num 20) (fl 1.15)") simp_all
  qed
  have n: "Num 120 \<noteq> NaN" by simp
  have l: "length ?label < 2 ^ 53" by (simp add: str_def)
  from layoutLabel_floor[OF n f l] show ?thesis
    using f by (simp add: letters_layout BASE_H_def BASE_W_def)
qed

text \<open>
  Away from whole font sizes the final widening can fall short by a rounding step: at font
  size 160 + 2^-45 the one-letter label is estimated at 96 + 2^-46, the sum with the padding
  rounds to 128, and 128 - 32 is below the estimate.
\<close>

lemma gap_font: "fl gapFont = Num gapFont"
  using fl_eval[of 7 "160 + 1 / 2 ^ 45"]
  by (simp add: pow2_def roundHalfEven_def Let_def gapFont_def)

lemma gap_product: "fl (gapFont * d06) = Num gapEstimate"
  using fl_eval[of 6 "(160 + 1 / 2 ^ 45) * (5404319552844595 / 9007199254740992)"]
  by (simp add: pow2_def roundHalfEven_def Let_def d06_def gapFont_def gapEstimate_def)

lemma gap_approx: "approxTextWidth [97] (Num gapFont) = Num gapEstimate"
proof -
  have "jsmul (Num (real (length [97::nat]))) (Num gapFont) = Num gapFont"
    by (simp add: jsmul_Num gap_font)
  then show ?thesis
    unfolding approxTextWidth_def fl_06 by (simp only: jsmul_Num gap_product)
qed

lemma gap_sum: "jsadd (Num gapEstimate) (Num 32) = Num 128"
  using fl_eval[of 7 "128 + 1 / 2 ^ 46"]
  by (simp add: pow2_def roundHalfEven_def Let_def gapEstimate_def)

lemma gap_cmp: "\<not> jsle (Num gapEstimate) (Num 88)" "\<not> jsle (Num gapEstimate) (Num 96)"
  by (simp_all add: gapEstimate_def)

lemma gap_rebuild:
  "rebuild [97] (Num gapFont) (Num 120) = (True, [[97]], Num 120)"
proof -
  have sp: "splitWords [] [97] = [[97]]" by (simp add: is_space_def)
  have wr: "wrapWords (Num gapFont) (Num 120) [[97]] [] [] = [[97]]"
    by (simp add: gap_approx avail_120 gap_cmp)
  show ?thesis
    apply (simp only: rebuild_def sp Let_def)
    apply (simp only: wr list.simps if_False)
    apply (simp add: maxLines_def)
    done
qed

lemma layoutLabel_rounding_gap:
  "lines (layoutLabel (str ''a'') (Num gapFont) (Num 120)) = [str ''a'']
   \<and> width (layoutLabel (str ''a'') (Num gapFont) (Num 120)) = Num 128
   \<and> \<not> jsle (approxTextWidth (str ''a'') (Num gapFont))
            (jssub (Num 128) (jsmul paddingX (Num 2)))"
proof -
  have s: "str ''a'' = [97]" by (simp add: str_def)
  have "jsmax (Num 120) (Num BASE_W) = Num 120" by (simp add: jsmax_def BASE_W_def)
  then have l: "rebuildLoop 6 [97] (Num gapFont) [] (jsmax (Num 120) (Num BASE_W)) =
             ([[97]], Num 120)"
    using rebuildLoop_first_ok[OF gap_rebuild, of 6 "[]"] by simp
  have a: "jssub (Num 128) (jsmul paddingX (Num 2)) = Num 96" by (simp add: jssub_def pad32)
  have g0: "jsmax (Num gapEstimate) (Num 0) = Num gapEstimate"
    by (simp add: jsmax_def gapEstimate_def)
  have w: "width (layoutLabel [97] (Num gapFont) (Num 120)) = Num 128"
    apply (simp only: layoutLabel_fields l fst_conv snd_conv list.map fold.simps comp_apply id_apply
                      gap_approx g0 pad32 gap_sum)
    apply (simp add: jsmax_def)
    done
  have n: "lines (layoutLabel [97] (Num gapFont) (Num 120)) = [[97]]"
    by (simp only: layoutLabel_fields l fst_conv) simp
  show ?thesis unfolding s a using w n gap_cmp(2) by (simp only: gap_approx) simp
qed

section \<open>Zooming keeps the point under the cursor\<close>

lemma clamp_bounds: "a \<le> b \<Longrightarrow> a \<le> clamp v a b \<and> clamp v a b \<le> b"
  by (simp add: clamp_def)

text \<open>
  Claim C7. A wheel event without Shift on a mounted surface, at a non-zero scale: the
  world point that was under the cursor before the zoom is under the cursor again with
  the new pan and scale, and the new scale is the old one times
  \<open>exp (- deltaY * 0.0015)\<close>, clamped to the interval from 0.3 to 3. In real arithmetic
  the two screen points are equal, which is the invariant up to rounding in doubles.
\<close>

theorem wheel_zoom_pins_cursor:
  assumes rect: "svgRect s = Some rect"
      and zoom: "\<not> we_shiftKey e"
      and sc: "scale s \<noteq> 0"
  shows "\<exists>s'. onWheelSvg e s = Inr s'
           \<and> toScreen (pt_x (toWorld (we_clientX e) (we_clientY e) s))
                       (pt_y (toWorld (we_clientX e) (we_clientY e) s)) s
               = \<lparr>pt_x = we_clientX e - r_left rect, pt_y = we_clientY e - r_top rect\<rparr>
           \<and> toScreen (pt_x (toWorld (we_clientX e) (we_clientY e) s))
                       (pt_y (toWorld (we_clientX e) (we_clientY e) s)) s'
               = \<lparr>pt_x = we_clientX e - r_left rect, pt_y = we_clientY e - r_top rect\<rparr>
           \<and> scale s' = clamp (scale s * exp (- we_deltaY e * 0.0015)) 0.3 3
           \<and> 0.3 \<le> scale s' \<and> scale s' \<le> 3"
proof -
  let ?ns = "clamp (scale s * exp (- we_deltaY e * 0.0015)) 0.3 3"
  have b: "0.3 \<le> ?ns \<and> ?ns \<le> 3"
    by (rule clamp_bounds) simp
  show ?thesis
    using rect zoom sc b
    by (simp add: onWheelSvg_def toScreen_def toWorld_def Let_def)
qed

theorem wheel_zoom_pins_cursor_witness:
  "onWheelSvg wheelIn (initialState surface)
     = Inr ((initialState surface)\<lparr>pan := \<lparr>pt_x = 200, pt_y = 500\<rparr>, scale := 3\<rparr>)
   \<and> toWorld 500 200 (initialState surface) = \<lparr>pt_x = 100, pt_y = - 100\<rparr>
   \<and> toScreen 100 (- 100) ((initialState surface)\<lparr>pan := \<lparr>pt_x = 200, pt_y = 500\<rparr>, scale := 3\<rparr>)
     = \<lparr>pt_x = 500, pt_y = 200\<rparr>"
proof -
  have r: "svgRect (initialState surface) = Some surface"
    by (simp add: initialState_def)
  have z: "\<not> we_shiftKey wheelIn" by (simp add: wheelIn_def)
  have s: "scale (initialState surface) \<noteq> 0" by (simp add: initialState_def)
  have w: "toWorld 500 200 (initialState surface) = \<lparr>pt_x = 100, pt_y = - 100\<rparr>"
    by (simp add: toWorld_def initialState_def surface_def)
  have "(4::real) \<le> exp 3" using exp_ge_add_one_self[of "3::real"] by simp
  then have c: "clamp (1 * exp (- (- 2000) * 0.0015)) 0.3 3 = 3"
    by (simp add: clamp_def)
  from wheel_zoom_pins_cursor[OF r z s] obtain s' where
    s': "onWheelSvg wheelIn (initialState surface) = Inr s'"
        "toScreen (pt_x (toWorld (we_clientX wheelIn) (we_clientY wheelIn) (initialState surface)))
                  (pt_y (toWorld (we_clientX wheelIn) (we_clientY wheelIn) (initialState surface))) s'
           = \<lparr>pt_x = we_clientX wheelIn - r_left surface, pt_y = we_clientY wheelIn - r_top surface\<rparr>"
    by blast
  have eq: "onWheelSvg wheelIn (initialState surface)
     = Inr ((initialState surface)\<lparr>pan := \<lparr>pt_x = 200, pt_y = 500\<rparr>, scale := 3\<rparr>)"
    using c by (simp add: onWheelSvg_def wheelIn_def initialState_def surface_def Let_def)
  with s'(1) have "s' = (initialState surface)\<lparr>pan := \<lparr>pt_x = 200, pt_y = 500\<rparr>, scale := 3\<rparr>"
    by simp
  with s'(2) w have "toScreen 100 (- 100) ((initialState surface)\<lparr>pan := \<lparr>pt_x = 200, pt_y = 500\<rparr>, scale := 3\<rparr>)
     = \<lparr>pt_x = 500, pt_y = 200\<rparr>"
    by (simp add: wheelIn_def surface_def)
  with eq w show ?thesis by simp
qed

section \<open>Resizing the selected nodes\<close>

lemma keyShiftPlus_nodes:
  "snd (keyShiftPlus None ids ns) = map (\<lambda>n. if ld_id n \<in> set ids then growNode n else n) ns"
  "fst (keyShiftPlus None ids ns) \<longleftrightarrow> ids \<noteq> []"
  by (cases "ids = []"; simp add: keyShiftPlus_def Let_def)+

lemma keyShiftMinus_nodes:
  "snd (keyShiftMinus None ids ns) = map (\<lambda>n. if ld_id n \<in> set ids then shrinkNode n else n) ns"
  "fst (keyShiftMinus None ids ns) \<longleftrightarrow> ids \<noteq> []"
  by (cases "ids = []"; simp add: keyShiftMinus_def Let_def)+

lemma growNode_fields:
  "ld_w (growNode n) = jsmin (Num 420) (jsround (jsmul (ld_w n) (Num d12)))"
  "ld_h (growNode n) = jsmin (Num 240) (jsround (jsmul (ld_h n) (Num d115)))"
  unfolding growNode_def fl_12 fl_115 by simp_all

lemma shrinkNode_fields:
  "ld_w (shrinkNode n) = jsmax (Num 80) (jsround (jsdiv (ld_w n) (Num d12)))"
  "ld_h (shrinkNode n) = jsmax (Num 48) (jsround (jsdiv (ld_h n) (Num d115)))"
  unfolding shrinkNode_def fl_12 fl_115 by simp_all

lemma resize_caps:
  assumes "v \<noteq> NaN" "c \<noteq> 0"
  shows "jsle (jsmin (Num cap) (jsround (jsmul v (Num c)))) (Num cap)"
    and "jsle (Num cap) (jsmax (Num cap) (jsround (jsdiv v (Num c))))"
proof -
  have "jsround (jsmul v (Num c)) \<noteq> NaN"
    using assms by (simp add: jsround_NaN jsmul_Num_NaN)
  then show "jsle (jsmin (Num cap) (jsround (jsmul v (Num c)))) (Num cap)"
    by (intro jsmin_le(1)) simp_all
  have "jsround (jsdiv v (Num c)) \<noteq> NaN"
    using assms by (simp add: jsround_NaN jsdiv_Num_NaN)
  then show "jsle (Num cap) (jsmax (Num cap) (jsround (jsdiv v (Num c))))"
    by (intro jsmax_ge(1)) simp_all
qed

lemma resize_NaN:
  "jsmin (Num cap) (jsround (jsmul NaN (Num c))) = NaN"
  "jsmax (Num cap) (jsround (jsdiv NaN (Num c))) = NaN"
  by (simp_all add: jsmin_def jsmax_def jsmul_def jsdiv_def)

lemma pow2_m32: "pow2 (- 32) = 1 / 2 ^ 32" and pow2_m33: "pow2 (- 33) = 1 / 2 ^ 33"
  and pow2_22: "pow2 22 = 2 ^ 22" and pow2_21: "pow2 21 = 2 ^ 21"
  by (simp_all add: pow2_def)

lemma floor_half: "\<bar>real_of_int \<lfloor>t + 1 / 2\<rfloor> - t\<bar> \<le> 1 / 2"
  by linarith

lemma div_ge1_le: "0 \<le> a \<Longrightarrow> 1 \<le> c \<Longrightarrow> a / c \<le> (a::real)"
  using frac_le[of a a 1 c] by simp

text \<open>
  Multiplying or dividing a size of magnitude up to 2^20 by the double of a factor and
  rounding gives a whole number within 1/2 + 2^-30 of the exact multiple or quotient.
\<close>

lemma grow_near:
  assumes w: "\<bar>w\<bar> \<le> 2 ^ 20" and c: "1 \<le> c" "c \<le> 2" "\<bar>c - c0\<bar> \<le> 1 / 2 ^ 53"
  shows "\<exists>t. jsmul (Num w) (Num c) = Num t
             \<and> \<bar>real_of_int \<lfloor>t + 1 / 2\<rfloor> - c0 * w\<bar> \<le> 1 / 2 + 1 / 2 ^ 30"
proof -
  have "\<bar>w * c\<bar> = \<bar>w\<bar> * c" using c(1) by (simp add: abs_mult)
  also have "\<dots> \<le> 2 ^ 20 * 2" using w c(1,2) by (intro mult_mono) simp_all
  finally have "\<bar>w * c\<bar> < pow2 22" by (simp add: pow2_22)
  from fl_near[OF this] obtain t where t: "fl (w * c) = Num t" "\<bar>t - w * c\<bar> \<le> pow2 (- 32)"
    by auto
  have "\<bar>w * c - c0 * w\<bar> = \<bar>w\<bar> * \<bar>c - c0\<bar>" by (simp add: abs_mult[symmetric] algebra_simps)
  also have "\<dots> \<le> 2 ^ 20 * (1 / 2 ^ 53)" using w c(3) by (intro mult_mono) simp_all
  finally have d: "\<bar>w * c - c0 * w\<bar> \<le> 1 / 2 ^ 33" by simp
  have "\<bar>real_of_int \<lfloor>t + 1 / 2\<rfloor> - c0 * w\<bar> \<le> 1 / 2 + 1 / 2 ^ 32 + 1 / 2 ^ 33"
    using floor_half[of t] t(2) d unfolding pow2_m32 by linarith
  then have "\<bar>real_of_int \<lfloor>t + 1 / 2\<rfloor> - c0 * w\<bar> \<le> 1 / 2 + 1 / 2 ^ 30" by simp
  with t(1) show ?thesis by (auto simp: jsmul_Num)
qed

lemma shrink_near:
  assumes w: "\<bar>w\<bar> \<le> 2 ^ 20" and c: "1 \<le> c" "c \<le> 2" "\<bar>c - c0\<bar> \<le> 1 / 2 ^ 53" and c0: "1 \<le> c0"
  shows "\<exists>t. jsdiv (Num w) (Num c) = Num t
             \<and> \<bar>real_of_int \<lfloor>t + 1 / 2\<rfloor> - w / c0\<bar> \<le> 1 / 2 + 1 / 2 ^ 30"
proof -
  have cpos: "0 < c" "0 < c0" using c(1) c0 by simp_all
  have "\<bar>w / c\<bar> = \<bar>w\<bar> / c" using cpos by simp
  also have "\<dots> \<le> \<bar>w\<bar>" using c(1) by (intro div_ge1_le) simp_all
  finally have "\<bar>w / c\<bar> < pow2 21" using w by (simp add: pow2_21)
  from fl_near[OF this] obtain t where t: "fl (w / c) = Num t" "\<bar>t - w / c\<bar> \<le> pow2 (- 33)"
    by auto
  have "w / c - w / c0 = w * (c0 - c) / (c * c0)" using cpos by (simp add: field_simps)
  then have "\<bar>w / c - w / c0\<bar> = \<bar>w\<bar> * \<bar>c0 - c\<bar> / (c * c0)"
    using cpos by (simp add: abs_mult)
  also have "\<dots> \<le> \<bar>w\<bar> * \<bar>c0 - c\<bar>"
  proof -
    have "1 * 1 \<le> c * c0" using c(1) c0 by (intro mult_mono) simp_all
    then have "1 \<le> c * c0" by simp
    then show ?thesis by (intro div_ge1_le) simp_all
  qed
  also have "\<dots> \<le> 2 ^ 20 * (1 / 2 ^ 53)"
  proof -
    have "\<bar>c0 - c\<bar> \<le> 1 / 2 ^ 53" using c(3) by (simp only: abs_minus_commute)
    with w show ?thesis by (intro mult_mono) simp_all
  qed
  finally have d: "\<bar>w / c - w / c0\<bar> \<le> 1 / 2 ^ 33" by simp
  have "\<bar>real_of_int \<lfloor>t + 1 / 2\<rfloor> - w / c0\<bar> \<le> 1 / 2 + 1 / 2 ^ 33 + 1 / 2 ^ 33"
    using floor_half[of t] t(2) d unfolding pow2_m33 by linarith
  then have "\<bar>real_of_int \<lfloor>t + 1 / 2\<rfloor> - w / c0\<bar> \<le> 1 / 2 + 1 / 2 ^ 30" by simp
  with t(1) cpos show ?thesis by (auto simp: jsdiv_Num)
qed

lemma grow_near_cap:
  assumes "\<bar>w\<bar> \<le> 2 ^ 20" "1 \<le> c" "c \<le> 2" "\<bar>c - c0\<bar> \<le> 1 / 2 ^ 53"
  shows "\<exists>r. jsmin (Num cap) (jsround (jsmul (Num w) (Num c))) = Num (min cap (of_int r))
             \<and> \<bar>real_of_int r - c0 * w\<bar> \<le> 1 / 2 + 1 / 2 ^ 30"
proof -
  from grow_near[OF assms] obtain t where
    "jsmul (Num w) (Num c) = Num t" "\<bar>real_of_int \<lfloor>t + 1 / 2\<rfloor> - c0 * w\<bar> \<le> 1 / 2 + 1 / 2 ^ 30"
    by blast
  then show ?thesis by (intro exI[of _ "\<lfloor>t + 1 / 2\<rfloor>"]) (simp add: jsmin_Num)
qed

lemma shrink_near_cap:
  assumes "\<bar>w\<bar> \<le> 2 ^ 20" "1 \<le> c" "c \<le> 2" "\<bar>c - c0\<bar> \<le> 1 / 2 ^ 53" "1 \<le> c0"
  shows "\<exists>r. jsmax (Num cap) (jsround (jsdiv (Num w) (Num c))) = Num (max cap (of_int r))
             \<and> \<bar>real_of_int r - w / c0\<bar> \<le> 1 / 2 + 1 / 2 ^ 30"
proof -
  from shrink_near[OF assms] obtain t where
    "jsdiv (Num w) (Num c) = Num t" "\<bar>real_of_int \<lfloor>t + 1 / 2\<rfloor> - w / c0\<bar> \<le> 1 / 2 + 1 / 2 ^ 30"
    by blast
  then show ?thesis by (intro exI[of _ "\<lfloor>t + 1 / 2\<rfloor>"]) (simp add: jsmax_Num)
qed

text \<open>
A size inside the box stays inside under either key.
\<close>

lemma grow_inside:
  assumes "of_int lo \<le> w" "w \<le> of_int hi" "0 < lo" "lo \<le> hi" "hi < 2 ^ 53" "1 \<le> c"
  shows "\<exists>r. jsmin (Num (of_int hi)) (jsround (jsmul (Num w) (Num c))) = Num r
             \<and> of_int lo \<le> r \<and> r \<le> of_int hi"
proof -
  have "real_of_int lo \<le> w * c"
  proof -
    have "0 \<le> w" using assms(1,3) by linarith
    then have "w * 1 \<le> w * c" using assms(6) by (intro mult_left_mono) simp_all
    with assms(1) show ?thesis by simp
  qed
  moreover have "0 \<le> lo" "lo < 2 ^ 53" using assms(3,4,5) by simp_all
  ultimately have ge: "jsle (Num (of_int lo)) (fl (w * c))" by (intro fl_ge_int)
  have lh: "real_of_int lo \<le> real_of_int hi" using assms(4) by simp
  show ?thesis
  proof (cases "fl (w * c)" rule: jsnum.exhaust)
    case (Num t)
    with ge have "real_of_int lo \<le> t" by simp
    then have "real_of_int lo \<le> real_of_int \<lfloor>t + 1 / 2\<rfloor>"
      by (metis add_increasing2 le_floor_iff of_int_le_iff zero_le_divide_1_iff zero_le_numeral)
    then show ?thesis using Num lh by (simp add: jsmul_Num jsmin_Num)
  next
    case NaN
    then show ?thesis using fl_not_NaN by blast
  next
    case PosInfinity
    then show ?thesis using lh by (simp add: jsmul_Num jsmin_def)
  next
    case NegInfinity
    then show ?thesis using ge by simp
  qed
qed

lemma shrink_inside:
  assumes "of_int lo \<le> w" "w \<le> of_int hi" "0 < lo" "lo \<le> hi" "hi < 2 ^ 53" "1 \<le> c"
  shows "\<exists>r. jsmax (Num (of_int lo)) (jsround (jsdiv (Num w) (Num c))) = Num r
             \<and> of_int lo \<le> r \<and> r \<le> of_int hi"
proof -
  have wpos: "0 < w" using assms(1,3) by linarith
  have cpos: "0 < c" using assms(6) by simp
  have xpos: "0 < w / c" using wpos cpos by simp
  have "w / c \<le> w" using wpos assms(6) by (intro div_ge1_le) simp_all
  then have "w / c \<le> real_of_int hi" using assms(2) by linarith
  from fl_le_int[OF xpos this assms(5)] obtain t where
    t: "fl (w / c) = Num t" "0 \<le> t" "t \<le> real_of_int hi" by auto
  have "\<lfloor>t + 1 / 2\<rfloor> \<le> hi"
  proof -
    have "real_of_int \<lfloor>t + 1 / 2\<rfloor> \<le> t + 1 / 2" by (rule of_int_floor_le)
    then have "real_of_int \<lfloor>t + 1 / 2\<rfloor> < real_of_int (hi + 1)" using t(3) by linarith
    then have "\<lfloor>t + 1 / 2\<rfloor> < hi + 1" by (simp only: of_int_less_iff)
    then show ?thesis by simp
  qed
  then have "real_of_int \<lfloor>t + 1 / 2\<rfloor> \<le> real_of_int hi" by (simp only: of_int_le_iff)
  moreover have "real_of_int lo \<le> real_of_int hi" using assms(4) by simp
  ultimately show ?thesis using t(1) cpos by (simp add: jsdiv_Num jsmax_Num)
qed

lemma inside_box:
  assumes "jsle (Num (of_int lo)) v" "jsle v (Num (of_int hi))"
    "0 < lo" "lo \<le> hi" "hi < 2 ^ 53" "1 \<le> c"
  shows "jsle (Num (of_int lo)) (jsmin (Num (of_int hi)) (jsround (jsmul v (Num c))))"
    and "jsle (jsmin (Num (of_int hi)) (jsround (jsmul v (Num c)))) (Num (of_int hi))"
    and "jsle (Num (of_int lo)) (jsmax (Num (of_int lo)) (jsround (jsdiv v (Num c))))"
    and "jsle (jsmax (Num (of_int lo)) (jsround (jsdiv v (Num c)))) (Num (of_int hi))"
proof -
  obtain w where v: "v = Num w" "of_int lo \<le> w" "w \<le> of_int hi"
    using assms(1,2) by (cases v) simp_all
  from grow_inside[OF v(2,3) assms(3-6)] obtain r where
    r: "jsmin (Num (of_int hi)) (jsround (jsmul (Num w) (Num c))) = Num r"
       "of_int lo \<le> r" "r \<le> of_int hi" by blast
  from shrink_inside[OF v(2,3) assms(3-6)] obtain q where
    q: "jsmax (Num (of_int lo)) (jsround (jsdiv (Num w) (Num c))) = Num q"
       "of_int lo \<le> q" "q \<le> of_int hi" by blast
  show "jsle (Num (of_int lo)) (jsmin (Num (of_int hi)) (jsround (jsmul v (Num c))))"
    and "jsle (jsmin (Num (of_int hi)) (jsround (jsmul v (Num c)))) (Num (of_int hi))"
    and "jsle (Num (of_int lo)) (jsmax (Num (of_int lo)) (jsround (jsdiv v (Num c))))"
    and "jsle (jsmax (Num (of_int lo)) (jsround (jsdiv v (Num c)))) (Num (of_int hi))"
    unfolding v(1) r(1) q(1) using r(2,3) q(2,3) by simp_all
qed

text \<open>
  Claim C8, as the code has it. While no label is edited, Shift with \<open>+\<close> (a snapshot
  having been pushed if anything is selected) replaces the
  width of every selected node by \<open>Math.min(420, Math.round(w * 1.2))\<close> and its height
  by \<open>Math.min(240, Math.round(h * 1.15))\<close>, Shift with \<open>-\<close> replaces them by
  \<open>Math.max(80, Math.round(w / 1.2))\<close> and \<open>Math.max(48, Math.round(h / 1.15))\<close>,
  and the other nodes are unchanged; while a label is edited neither key does anything.
  A size that is NaN stays NaN. Otherwise growing is capped above by 420 and 240 and
  shrinking is capped below by 80 and 48. For a size of magnitude up to 2^20 the new
  size is the cap or a whole number within 1/2 + 2^-30 of the exact multiple or
  quotient. A size that starts between 80 and 420, or 48 and 240, stays there under
  both keys.
\<close>

theorem resize_keys:
  "snd (keyShiftPlus None ids ns) = map (\<lambda>n. if ld_id n \<in> set ids then growNode n else n) ns
   \<and> snd (keyShiftMinus None ids ns) = map (\<lambda>n. if ld_id n \<in> set ids then shrinkNode n else n) ns
   \<and> (fst (keyShiftPlus None ids ns) \<longleftrightarrow> ids \<noteq> [])
   \<and> (fst (keyShiftMinus None ids ns) \<longleftrightarrow> ids \<noteq> [])
   \<and> keyShiftPlus (Some i) ids ns = (False, ns) \<and> keyShiftMinus (Some i) ids ns = (False, ns)
   \<and> (ld_w n \<noteq> NaN \<longrightarrow>
        jsle (ld_w (growNode n)) (Num 420) \<and> jsle (Num 80) (ld_w (shrinkNode n)))
   \<and> (ld_h n \<noteq> NaN \<longrightarrow>
        jsle (ld_h (growNode n)) (Num 240) \<and> jsle (Num 48) (ld_h (shrinkNode n)))
   \<and> (ld_w n = NaN \<longrightarrow> ld_w (growNode n) = NaN \<and> ld_w (shrinkNode n) = NaN)
   \<and> (ld_h n = NaN \<longrightarrow> ld_h (growNode n) = NaN \<and> ld_h (shrinkNode n) = NaN)
   \<and> (ld_w n = Num w \<and> \<bar>w\<bar> \<le> 2 ^ 20 \<longrightarrow>
        (\<exists>r. ld_w (growNode n) = Num (min 420 (of_int r))
              \<and> \<bar>real_of_int r - 1.2 * w\<bar> \<le> 1 / 2 + 1 / 2 ^ 30)
        \<and> (\<exists>r. ld_w (shrinkNode n) = Num (max 80 (of_int r))
              \<and> \<bar>real_of_int r - w / 1.2\<bar> \<le> 1 / 2 + 1 / 2 ^ 30))
   \<and> (ld_h n = Num h \<and> \<bar>h\<bar> \<le> 2 ^ 20 \<longrightarrow>
        (\<exists>r. ld_h (growNode n) = Num (min 240 (of_int r))
              \<and> \<bar>real_of_int r - 1.15 * h\<bar> \<le> 1 / 2 + 1 / 2 ^ 30)
        \<and> (\<exists>r. ld_h (shrinkNode n) = Num (max 48 (of_int r))
              \<and> \<bar>real_of_int r - h / 1.15\<bar> \<le> 1 / 2 + 1 / 2 ^ 30))
   \<and> (jsle (Num 80) (ld_w n) \<and> jsle (ld_w n) (Num 420) \<longrightarrow>
        jsle (Num 80) (ld_w (growNode n)) \<and> jsle (ld_w (shrinkNode n)) (Num 420))
   \<and> (jsle (Num 48) (ld_h n) \<and> jsle (ld_h n) (Num 240) \<longrightarrow>
        jsle (Num 48) (ld_h (growNode n)) \<and> jsle (ld_h (shrinkNode n)) (Num 240))"
proof (intro conjI impI)
  show "snd (keyShiftPlus None ids ns) = map (\<lambda>n. if ld_id n \<in> set ids then growNode n else n) ns"
    by (rule keyShiftPlus_nodes)
  show "snd (keyShiftMinus None ids ns) = map (\<lambda>n. if ld_id n \<in> set ids then shrinkNode n else n) ns"
    by (rule keyShiftMinus_nodes)
  show "fst (keyShiftPlus None ids ns) \<longleftrightarrow> ids \<noteq> []" by (rule keyShiftPlus_nodes)
  show "fst (keyShiftMinus None ids ns) \<longleftrightarrow> ids \<noteq> []" by (rule keyShiftMinus_nodes)
  show "keyShiftPlus (Some i) ids ns = (False, ns)" by (simp add: keyShiftPlus_def)
  show "keyShiftMinus (Some i) ids ns = (False, ns)" by (simp add: keyShiftMinus_def)
next
  assume "ld_w n \<noteq> NaN"
  then show "jsle (ld_w (growNode n)) (Num 420)" "jsle (Num 80) (ld_w (shrinkNode n))"
    unfolding growNode_fields shrinkNode_fields by (simp_all add: resize_caps d_nz)
next
  assume "ld_h n \<noteq> NaN"
  then show "jsle (ld_h (growNode n)) (Num 240)" "jsle (Num 48) (ld_h (shrinkNode n))"
    unfolding growNode_fields shrinkNode_fields by (simp_all add: resize_caps d_nz)
next
  assume "ld_w n = NaN"
  then show "ld_w (growNode n) = NaN" "ld_w (shrinkNode n) = NaN"
    unfolding growNode_fields shrinkNode_fields by (simp_all add: resize_NaN)
next
  assume "ld_h n = NaN"
  then show "ld_h (growNode n) = NaN" "ld_h (shrinkNode n) = NaN"
    unfolding growNode_fields shrinkNode_fields by (simp_all add: resize_NaN)
next
  assume a: "ld_w n = Num w \<and> \<bar>w\<bar> \<le> 2 ^ 20"
  then have w: "\<bar>w\<bar> \<le> 2 ^ 20" by simp
  have "\<exists>r. jsmin (Num 420) (jsround (jsmul (Num w) (Num d12))) = Num (min 420 (of_int r))
             \<and> \<bar>real_of_int r - (12 / 10) * w\<bar> \<le> 1 / 2 + 1 / 2 ^ 30"
    by (rule grow_near_cap[OF w d12_bounds])
  then show "\<exists>r. ld_w (growNode n) = Num (min 420 (of_int r))
              \<and> \<bar>real_of_int r - 1.2 * w\<bar> \<le> 1 / 2 + 1 / 2 ^ 30"
    unfolding growNode_fields using a by simp
  have "\<exists>r. jsmax (Num 80) (jsround (jsdiv (Num w) (Num d12))) = Num (max 80 (of_int r))
             \<and> \<bar>real_of_int r - w / (12 / 10)\<bar> \<le> 1 / 2 + 1 / 2 ^ 30"
    by (rule shrink_near_cap[OF w d12_bounds]) simp
  then show "\<exists>r. ld_w (shrinkNode n) = Num (max 80 (of_int r))
              \<and> \<bar>real_of_int r - w / 1.2\<bar> \<le> 1 / 2 + 1 / 2 ^ 30"
    unfolding shrinkNode_fields using a by simp
next
  assume a: "ld_h n = Num h \<and> \<bar>h\<bar> \<le> 2 ^ 20"
  then have h: "\<bar>h\<bar> \<le> 2 ^ 20" by simp
  have "\<exists>r. jsmin (Num 240) (jsround (jsmul (Num h) (Num d115))) = Num (min 240 (of_int r))
             \<and> \<bar>real_of_int r - (115 / 100) * h\<bar> \<le> 1 / 2 + 1 / 2 ^ 30"
    by (rule grow_near_cap[OF h d115_bounds])
  then show "\<exists>r. ld_h (growNode n) = Num (min 240 (of_int r))
              \<and> \<bar>real_of_int r - 1.15 * h\<bar> \<le> 1 / 2 + 1 / 2 ^ 30"
    unfolding growNode_fields using a by simp
  have "\<exists>r. jsmax (Num 48) (jsround (jsdiv (Num h) (Num d115))) = Num (max 48 (of_int r))
             \<and> \<bar>real_of_int r - h / (115 / 100)\<bar> \<le> 1 / 2 + 1 / 2 ^ 30"
    by (rule shrink_near_cap[OF h d115_bounds]) simp
  then show "\<exists>r. ld_h (shrinkNode n) = Num (max 48 (of_int r))
              \<and> \<bar>real_of_int r - h / 1.15\<bar> \<le> 1 / 2 + 1 / 2 ^ 30"
    unfolding shrinkNode_fields using a by simp
next
  assume a: "jsle (Num 80) (ld_w n) \<and> jsle (ld_w n) (Num 420)"
  have "jsle (Num (of_int 80)) (ld_w n)" "jsle (ld_w n) (Num (of_int 420))" using a by simp_all
  from inside_box(1,4)[OF this, of d12]
  show "jsle (Num 80) (ld_w (growNode n))" "jsle (ld_w (shrinkNode n)) (Num 420)"
    unfolding growNode_fields shrinkNode_fields using d12_bounds(1) by simp_all
next
  assume a: "jsle (Num 48) (ld_h n) \<and> jsle (ld_h n) (Num 240)"
  have "jsle (Num (of_int 48)) (ld_h n)" "jsle (ld_h n) (Num (of_int 240))" using a by simp_all
  from inside_box(1,4)[OF this, of d115]
  show "jsle (Num 48) (ld_h (growNode n))" "jsle (ld_h (shrinkNode n)) (Num 240)"
    unfolding growNode_fields shrinkNode_fields using d115_bounds(1) by simp_all
qed

text \<open>
  Sizes 120 by 64 and 120 by 50. The product \<open>50 * 1.15\<close> is the double just below 57.5
  and rounds to 57.
\<close>

lemma jsround_fl:
  assumes "\<bar>x\<bar> < 2 ^ 11" "of_int k - 1 / 2 + 1 / 2 ^ 40 \<le> x" "x \<le> of_int k + 1 / 2 - 1 / 2 ^ 40"
  shows "jsround (fl x) = Num (of_int k)"
proof -
  have "\<bar>x\<bar> < pow2 11" using assms(1) by (simp add: pow2_def)
  from fl_near[OF this] obtain t where t: "fl x = Num t" "\<bar>t - x\<bar> \<le> pow2 (- 43)" by auto
  have p: "pow2 (- 43) = 1 / 2 ^ 43" by (simp add: pow2_def)
  have q: "(1::real) / 2 ^ 43 < 1 / 2 ^ 40" by simp
  have "real_of_int k \<le> t + 1 / 2" "t + 1 / 2 < real_of_int k + 1"
    using t(2) assms(2,3) q unfolding p by linarith+
  then have "\<lfloor>t + 1 / 2\<rfloor> = k" by (simp add: floor_eq_iff)
  then show ?thesis using t(1) by simp
qed

lemma grow_120: "jsround (jsmul (Num 120) (Num d12)) = Num 144"
  using jsround_fl[of "120 * d12" 144] by (simp add: jsmul_Num d12_def)

lemma grow_64: "jsround (jsmul (Num 64) (Num d115)) = Num 74"
  using jsround_fl[of "64 * d115" 74] by (simp add: jsmul_Num d115_def)

lemma grow_50: "jsround (jsmul (Num 50) (Num d115)) = Num 57"
proof -
  have "fl (50 * (5179139571476070 / 4503599627370496)) = Num (8092405580431359 / 140737488355328)"
    using fl_eval[of 5 "50 * (5179139571476070 / 4503599627370496)"]
    by (simp add: pow2_def roundHalfEven_def Let_def)
  then show ?thesis by (simp add: jsmul_Num d115_def)
qed

lemma shrink_120: "jsround (jsdiv (Num 120) (Num d12)) = Num 100"
  using jsround_fl[of "120 / d12" 100] by (simp add: jsdiv_def d12_def)

lemma shrink_64: "jsround (jsdiv (Num 64) (Num d115)) = Num 56"
  using jsround_fl[of "64 / d115" 56] by (simp add: jsdiv_def d115_def)

lemma shrink_50: "jsround (jsdiv (Num 50) (Num d115)) = Num 43"
  using jsround_fl[of "50 / d115" 43] by (simp add: jsdiv_def d115_def)

lemma shrink_1232: "jsround (jsdiv (Num 1232) (Num d12)) = Num 1027"
  using jsround_fl[of "1232 / d12" 1027] by (simp add: jsdiv_def d12_def)

lemma threeStored_grow:
  "map (\<lambda>n. if ld_id n \<in> set [Num 1, Num 2] then growNode n else n) threeStored =
   [storedNode 1 144 74, storedNode 2 144 57, storedNode 3 120 64]"
  unfolding threeStored_def growNode_def fl_12 fl_115
  by (simp add: storedNode_def grow_120 grow_64 grow_50 jsmin_Num)

lemma threeStored_shrink:
  "map (\<lambda>n. if ld_id n \<in> set [Num 1, Num 2] then shrinkNode n else n) threeStored =
   [storedNode 1 100 56, storedNode 2 100 48, storedNode 3 120 64]"
  unfolding threeStored_def shrinkNode_def fl_12 fl_115
  by (simp add: storedNode_def shrink_120 shrink_64 shrink_50 jsmax_Num)

theorem resize_keys_witness:
  "snd (keyShiftPlus None [Num 1, Num 2] threeStored)
     = [storedNode 1 144 74, storedNode 2 144 57, storedNode 3 120 64]
   \<and> snd (keyShiftMinus None [Num 1, Num 2] threeStored)
     = [storedNode 1 100 56, storedNode 2 100 48, storedNode 3 120 64]
   \<and> fst (keyShiftPlus None [Num 1, Num 2] threeStored)
   \<and> jsle (ld_w (growNode (storedNode 2 120 50))) (Num 420)
   \<and> jsle (Num 48) (ld_h (shrinkNode (storedNode 2 120 50)))
   \<and> jsle (Num 48) (ld_h (growNode (storedNode 2 120 50)))
   \<and> jsle (ld_h (shrinkNode (storedNode 2 120 50))) (Num 240)
   \<and> (\<exists>r. ld_h (growNode (storedNode 2 120 50)) = Num (min 240 (of_int r))
           \<and> \<bar>real_of_int r - 1.15 * 50\<bar> \<le> 1 / 2 + 1 / 2 ^ 30)"
proof -
  let ?n = "storedNode 2 120 50"
  have f: "ld_w ?n = Num 120" "ld_h ?n = Num 50" by (simp_all add: storedNode_def)
  have hyp: "ld_w ?n \<noteq> NaN" "ld_h ?n \<noteq> NaN" "ld_h ?n = Num 50 \<and> \<bar>50::real\<bar> \<le> 2 ^ 20"
    "jsle (Num 48) (ld_h ?n) \<and> jsle (ld_h ?n) (Num 240)"
    by (simp_all add: f)
  from resize_keys[of "[Num 1, Num 2]" threeStored _ ?n 120 50] hyp
  show ?thesis by (simp only: threeStored_grow threeStored_shrink) blast
qed

text \<open>
  A node carrying one word of 100 letters is given the width 100 * 20 * 0.6 + 32 = 1232 by
  \<open>resizeNodeForLabel\<close>.
\<close>

lemma splitWords_one_word:
  "\<not> is_space c \<Longrightarrow>
   splitWords cur (replicate n c) = (if cur = [] \<and> n = 0 then [] else [cur @ replicate n c])"
proof (induction n arbitrary: cur)
  case 0
  then show ?case by simp
next
  case (Suc n)
  then show ?case by (simp add: replicate_app_Cons_same)
qed

lemma font_64: "clampNum (jsround (jsmul (Num 64) (fl 0.35))) (Num 12) (Num 20) = Num 20"
proof -
  have "jsround (fl (64 * d035)) = Num (of_int 22)"
    by (rule jsround_fl) (simp_all add: d035_def)
  then show ?thesis
    unfolding fl_035 by (simp add: jsmul_Num clampNum_def jsmin_Num jsmax_Num)
qed

lemma long_word_layout:
  "width (layoutLabel (replicate 100 97) (Num 20) (Num BASE_W)) = Num 1232"
  "height (layoutLabel (replicate 100 97) (Num 20) (Num BASE_W)) = Num 64"
proof -
  have sp: "splitWords [] (replicate 100 97) = [replicate 100 97]"
    by (simp add: splitWords_one_word is_space_def)
  have wr: "wrapWords (Num 20) (Num 120) [replicate 100 97] [] [] = [replicate 100 97]"
    by (simp add: approx20 avail_120)
  have rb: "rebuild (replicate 100 97) (Num 20) (Num 120) = (True, [replicate 100 97], Num 120)"
    apply (simp only: rebuild_def sp Let_def)
    apply (simp only: wr list.simps if_False)
    apply (simp add: maxLines_def)
    done
  have "jsmax (Num BASE_W) (Num BASE_W) = Num 120" by (simp add: jsmax_def BASE_W_def)
  then have lp: "rebuildLoop 6 (replicate 100 97) (Num 20) [] (jsmax (Num BASE_W) (Num BASE_W))
                 = ([replicate 100 97], Num 120)"
    using rebuildLoop_first_ok[OF rb, of 6 "[]"] by simp
  show "width (layoutLabel (replicate 100 97) (Num 20) (Num BASE_W)) = Num 1232"
    by (simp only: layoutLabel_fields lp fst_conv snd_conv)
       (simp add: approx20 jsmax_def pad32)
  show "height (layoutLabel (replicate 100 97) (Num 20) (Num BASE_W)) = Num 64"
    by (simp only: layoutLabel_fields lp fst_conv snd_conv lineHeight20)
       (simp add: jsmul_Num jsmax_def pad32 BASE_H_def)
qed

lemma wideStored_is_resized:
  "resizeNodeForLabel ((storedNode 1 120 64)\<lparr>ld_label := replicate 100 97\<rparr>) = wideStored"
proof -
  have f: "clampNum (jsround (jsmul (ld_h ((storedNode 1 120 64)\<lparr>ld_label := replicate 100 97\<rparr>))
                                    (fl 0.35))) (Num 12) (Num 20) = Num 20"
    using font_64 by (simp add: storedNode_def)
  show ?thesis
    by (simp only: resizeNodeForLabel_def Let_def f)
       (simp add: long_word_layout storedNode_def wideStored_def)
qed

text \<open>
  Shrinking that node gives \<open>Math.round(1232 / 1.2)\<close> = 1027: the upper bound 420 is
  applied by the growing key only.
\<close>

theorem shrink_leaves_wide_node_wide:
  "map ld_w (snd (keyShiftMinus None [Num 1] [wideStored])) = [Num 1027]
   \<and> \<not> jsle (Num 1027) (Num 420)"
  unfolding keyShiftMinus_nodes shrinkNode_def fl_12 fl_115
  by (simp add: wideStored_def storedNode_def shrink_1232 jsmax_Num)

section \<open>Shift+Tab along the root path\<close>

text \<open>Whenever Shift+Tab moves the selection, no path is remembered afterwards.\<close>

lemma bringBoxIntoView_keeps:
  "shiftTabPath (bringBoxIntoView cx cy bw bh margin s) = shiftTabPath s"
  "selectedId (bringBoxIntoView cx cy bw bh margin s) = selectedId s"
  by (simp_all add: bringBoxIntoView_def Let_def split: option.splits)

lemma shiftTabStep_forgets:
  assumes "shiftTabStep path idx0 s = Inr s'" and "selectedId s' \<noteq> selectedId s"
  shows "shiftTabPath s' = None"
  using assms
  by (auto simp: shiftTabStep_def Let_def selectOnly_def bringBoxIntoView_keeps
           split: if_splits option.splits)

lemma keyShiftTab_forgets:
  assumes "keyShiftTab s = Some (Inr s')" and "selectedId s' \<noteq> selectedId s"
  shows "shiftTabPath s' = None"
proof -
  from assms obtain path idx0 where
    "shiftTabStep path idx0 (s\<lparr>shiftTabPath := Some path, shiftTabIndex := idx0\<rparr>) = Inr s'"
    by (auto simp: keyShiftTab_def split: if_splits option.splits)
  moreover have "selectedId s' \<noteq> selectedId (s\<lparr>shiftTabPath := Some path, shiftTabIndex := idx0\<rparr>)"
    using assms(2) by simp
  ultimately show ?thesis by (rule shiftTabStep_forgets)
qed

lemma pairMap_parent:
  "getParentId 2 pairMap = Some 1" "getParentId 1 pairMap = None"
  by (simp_all add: getParentId_def pairMap_def plainEdge_def)

lemma afterFirstTab_parent: "getParentId 1 afterFirstTab = None"
  by (simp add: getParentId_def afterFirstTab_def selectOnly_def pairMap_def plainEdge_def)

lemma pairMap_path: "buildRootPath 2 pairMap = Some [1, 2]"
  by (simp add: buildRootPath_def rootPathLoop.simps pairMap_parent)

lemma afterFirstTab_path: "buildRootPath 1 afterFirstTab = Some [1]"
  by (simp add: buildRootPath_def rootPathLoop.simps afterFirstTab_parent)

lemma pairMap_guard:
  "editingId pairMap = None" "selectedId pairMap = Some 2" "selectedIds pairMap = [2]"
  "shiftTabPath pairMap = None"
  by (simp_all add: pairMap_def initialState_def)

lemma afterFirstTab_guard:
  "editingId afterFirstTab = None" "selectedId afterFirstTab = Some 1"
  "selectedIds afterFirstTab = [1]" "shiftTabPath afterFirstTab = None"
  by (simp_all add: afterFirstTab_def selectOnly_def pairMap_def initialState_def)

lemma pairMap_step:
  "shiftTabStep [1, 2] 1 (pairMap\<lparr>shiftTabPath := Some [1, 2], shiftTabIndex := 1\<rparr>)
     = Inr afterFirstTab"
  by (simp add: shiftTabStep_def Let_def findNode_def pairMap_def initialState_def plainNode_def
        bringBoxIntoView_def toScreen_def surface_def afterFirstTab_def selectOnly_def
        BASE_W_def BASE_H_def)

lemma shiftTabStep_single:
  "shiftTabStep [1] 0 s = Inr s"
  by (simp add: shiftTabStep_def)

text \<open>
  Claim C4 at its own scenario. On the two-node map with node 2 selected the first
  Shift+Tab selects node 1. The second one finds no remembered path (\<open>selectOnly\<close> has
  cleared it), rebuilds the path from node 1 as \<open>[1]\<close>, is at its only index and returns:
  the selection stays on node 1 and does not return to node 2.
\<close>

theorem shiftTab_does_not_walk_back:
  "keyShiftTab pairMap = Some (Inr afterFirstTab)
   \<and> selectedId afterFirstTab = Some 1 \<and> selectedIds afterFirstTab = [1]
   \<and> keyShiftTab afterFirstTab
       = Some (Inr (afterFirstTab\<lparr>shiftTabPath := Some [1], shiftTabIndex := 0\<rparr>))
   \<and> selectedIds (afterFirstTab\<lparr>shiftTabPath := Some [1], shiftTabIndex := 0\<rparr>) = [1]"
proof -
  have one: "keyShiftTab pairMap = Some (Inr afterFirstTab)"
    by (simp add: keyShiftTab_def pairMap_guard pairMap_path pairMap_step)
  have two: "keyShiftTab afterFirstTab
       = Some (Inr (afterFirstTab\<lparr>shiftTabPath := Some [1], shiftTabIndex := 0\<rparr>))"
    by (simp add: keyShiftTab_def afterFirstTab_guard afterFirstTab_path shiftTabStep_single)
  from one two show ?thesis by (simp add: afterFirstTab_guard)
qed

section \<open>Undo and redo\<close>

lemma new_Set_distinct: "distinct xs \<Longrightarrow> new_Set xs = xs"
proof (induction xs)
  case Nil
  then show ?case by simp
next
  case (Cons a as)
  then have "filter (\<lambda>b. b \<noteq> a) as = as"
    by (auto simp: filter_id_conv)
  with Cons show ?case by simp
qed

text \<open>
  \<open>undo\<close> brings back the snapshot on top of the undo stack, whatever it is, and keeps
  the current state for \<open>redo\<close>.
\<close>

lemma snapshot_undo:
  assumes "undoStack t = snapshot s # rest"
    and "distinct (selectedIds s)" and "distinct (selectedEdgeIds s)"
  shows "snapshot (undo t) = snapshot s"
    and "undoStack (undo t) = rest"
    and "redoStack (undo t) = snapshot t # redoStack t"
  using assms
  by (simp_all add: undo_def restore_def snapshot_def cloneSnapshot_def new_Set_distinct)

text \<open>
  The operations that change the nodes or edges in one step push the snapshot of the
  state they start from, so that \<open>undo\<close> after them restores it; \<open>removeNodes\<close> is
  one of them.
\<close>

lemma removeNodes_pushes_first:
  "ids \<noteq> [] \<Longrightarrow> undoStack (removeNodes ids s) = snapshot s # undoStack s"
  by (auto simp: removeNodes_def pushHistory_def cloneSnapshot_def clearSelection_def Let_def
        split: option.splits list.splits)

lemma removeNodes_is_undone:
  "snapshot (undo (removeNodes [3] chainMap)) = snapshot chainMap"
proof -
  have "undoStack (removeNodes [3] chainMap) = snapshot chainMap # undoStack chainMap"
    by (rule removeNodes_pushes_first) simp
  moreover have "distinct (selectedIds chainMap)" "distinct (selectedEdgeIds chainMap)"
    by (simp_all add: chainMap_def initialState_def)
  ultimately show ?thesis by (rule snapshot_undo(1))
qed

lemma drag_press:
  "pointerDownOnNode (pointerAt 400 300) 1 0 (initialState surface)
     = Inr ((initialState surface)
              \<lparr>draggingNodeId := Some 1, activeTouches := [(1, \<lparr>pt_x = 400, pt_y = 300\<rparr>)],
               panning := True, panStart := \<lparr>pt_x = 400, pt_y = 300\<rparr>,
               panAtStart := \<lparr>pt_x = 400, pt_y = 300\<rparr>\<rparr>)"
  by (simp add: pointerDownOnNode_def onPointerDownNode_def onPointerDownSvg_def pointerAt_def
        initialState_def surface_def idleLinking_def toWorld_def findNode_def Let_def)

text \<open>
  Claim C1 at a drag. On the starting state node 1 lies at x = 0. It is pressed at the
  centre of the surface, the pointer moves 100 pixels to the right and is released. No
  snapshot is pushed at the press or during the move; the gesture's only snapshot is
  pushed at the release, when node 1 is already at x = 100, and is a snapshot of that
  state. \<open>undo\<close> after the gesture therefore restores x = 100: the nodes it brings back
  are not the nodes from before the gesture.
\<close>

theorem drag_is_not_undone:
  "dragGesture (pointerAt 400 300) (pointerAt 500 300) (pointerAt 500 300) 1 0 (initialState surface)
     = Inr afterDrag
   \<and> undoStack (initialState surface) = []
   \<and> map n_x (nodes (initialState surface)) = [0]
   \<and> map n_x (nodes afterDrag) = [100]
   \<and> map (\<lambda>sn. map n_x (s_nodes sn)) (undoStack afterDrag) = [[100]]
   \<and> map n_x (nodes (undo afterDrag)) = [100]
   \<and> s_nodes (snapshot (undo afterDrag)) \<noteq> s_nodes (snapshot (initialState surface))"
proof -
  have "dragGesture (pointerAt 400 300) (pointerAt 500 300) (pointerAt 500 300) 1 0 (initialState surface)
     = Inr afterDrag"
    unfolding dragGesture_def drag_press
    by (simp add: onPointerMoveSvg_def onPointerUpSvg_def pushHistoryOf_def cloneSnapshot_def
          snapshot_def pointerAt_def initialState_def surface_def idleLinking_def toWorld_def
          touchDelete_def plainNode_def afterDrag_def Let_def)
  moreover have "undoStack (initialState surface) = []"
    by (simp add: initialState_def)
  moreover have "map n_x (nodes (initialState surface)) = [0]"
    by (simp add: initialState_def)
  moreover have "map n_x (nodes afterDrag) = [100]"
    by (simp add: afterDrag_def plainNode_def)
  moreover have "map (\<lambda>sn. map n_x (s_nodes sn)) (undoStack afterDrag) = [[100]]"
    by (simp add: afterDrag_def snapshot_def plainNode_def)
  moreover have "map n_x (nodes (undo afterDrag)) = [100]"
    by (simp add: afterDrag_def undo_def restore_def snapshot_def plainNode_def)
  moreover have "s_nodes (snapshot (undo afterDrag)) \<noteq> s_nodes (snapshot (initialState surface))"
    by (simp add: afterDrag_def undo_def restore_def snapshot_def plainNode_def initialState_def)
  ultimately show ?thesis by simp
qed

section \<open>Loading never fails\<close>

lemma mapE_Inr_iff:
  "mapE f xs = Inr ys \<longleftrightarrow> length ys = length xs \<and> (\<forall>i<length xs. f (xs ! i) = Inr (ys ! i))"
proof (induction xs arbitrary: ys)
  case Nil
  then show ?case by auto
next
  case (Cons a as)
  show ?case
  proof (cases "f a")
    case (Inl err)
    then show ?thesis by (auto simp: nth_Cons split: nat.splits) 
  next
    case (Inr b)
    show ?thesis
    proof (cases "mapE f as")
      case (Inl err)
      with Cons.IH have no: "\<And>bs. \<not> (length bs = length as \<and> (\<forall>i<length as. f (as ! i) = Inr (bs ! i)))"
        by auto
      show ?thesis
      proof
        assume "mapE f (a # as) = Inr ys"
        with Inl Inr show "length ys = length (a # as) \<and> (\<forall>i<length (a # as). f ((a # as) ! i) = Inr (ys ! i))"
          by simp
      next
        assume h: "length ys = length (a # as) \<and> (\<forall>i<length (a # as). f ((a # as) ! i) = Inr (ys ! i))"
        then obtain y ys' where ys: "ys = y # ys'" by (cases ys) auto
        with h have "length ys' = length as \<and> (\<forall>i<length as. f (as ! i) = Inr (ys' ! i))"
          by auto
        with no show "mapE f (a # as) = Inr ys" by blast
      qed
    next
      case bs: (Inr bs)
      with Cons.IH have ih: "length bs = length as" "\<forall>i<length as. f (as ! i) = Inr (bs ! i)"
        by auto
      show ?thesis
      proof
        assume "mapE f (a # as) = Inr ys"
        with Inr bs have "ys = b # bs" by simp
        with ih Inr show "length ys = length (a # as) \<and> (\<forall>i<length (a # as). f ((a # as) ! i) = Inr (ys ! i))"
          by (auto simp: nth_Cons split: nat.splits)
      next
        assume h: "length ys = length (a # as) \<and> (\<forall>i<length (a # as). f ((a # as) ! i) = Inr (ys ! i))"
        then obtain y ys' where ys: "ys = y # ys'" by (cases ys) auto
        with h Inr have y: "y = b" by auto
        from h ys have "length ys' = length as \<and> (\<forall>i<length as. f (as ! i) = Inr (ys' ! i))"
          by auto
        with Cons.IH[of ys'] bs have "ys' = bs" by simp
        with y ys Inr bs show "mapE f (a # as) = Inr ys" by simp
      qed
    qed
  qed
qed

lemma mapE_isl: "isl (mapE f xs) \<longleftrightarrow> list_ex (\<lambda>x. isl (f x)) xs"
  by (induction xs) (auto split: sum.splits)

lemma those_None_iff: "those xs = None \<longleftrightarrow> None \<in> set xs"
  by (induction xs) (auto split: option.splits)

lemma thenE_simps [simp]:
  "thenE (Inl err) k = Inl err" "thenE (Inr a) k = k a"
  by (simp_all add: thenE_def)

lemma thenE_Inr: "thenE r k = Inr b \<longleftrightarrow> (\<exists>a. r = Inr a \<and> k a = Inr b)"
  by (cases r) (simp_all add: thenE_def)

text \<open>
  A conversion throws exactly on the values that cannot be converted, and a callback
  fails exactly on the elements that make it convert one.
\<close>

lemma toStr_None_iff: "toStr env j = None \<longleftrightarrow> unconvertible j"
proof (induction j)
  case (JArray vs)
  let ?g = "\<lambda>v. if v = JNull then Some [] else toStr env v"
  have g: "?g v = None \<longleftrightarrow> unconvertible v" if "v \<in> set vs" for v
    using JArray[OF that] by simp
  have "toStr env (JArray vs) = None \<longleftrightarrow> None \<in> set (map ?g vs)"
    by (simp add: those_None_iff)
  also have "\<dots> \<longleftrightarrow> (\<exists>v \<in> set vs. ?g v = None)"
    by (simp only: set_map image_iff) metis
  also have "\<dots> \<longleftrightarrow> (\<exists>v \<in> set vs. unconvertible v)"
    using g by blast
  finally show ?case by (simp add: list_ex_iff)
qed simp_all

lemma Number_of_isl: "isl (Number_of env v) \<longleftrightarrow> throws v"
proof (cases v)
  case (Json j)
  then show ?thesis
    using toStr_None_iff[of env j]
    by (cases j) (auto simp: Number_of_def throws_def split: option.splits)
qed (simp_all add: Number_of_def throws_def)

lemma String_of_isl: "isl (String_of env v) \<longleftrightarrow> throws v"
proof (cases v)
  case (Json j)
  then show ?thesis
    using toStr_None_iff[of env j]
    by (auto simp: String_of_def throws_def split: option.splits)
qed (simp_all add: String_of_def throws_def)

lemma conversion_error:
  "Number_of env v = Inl err \<Longrightarrow> err = TypeError"
  "String_of env v = Inl err \<Longrightarrow> err = TypeError"
  by (auto simp: Number_of_def String_of_def split: jsval.splits json.splits option.splits)

lemma throws_orElse:
  "\<not> throws d \<Longrightarrow> throws (orElse v d) \<longleftrightarrow> throws v"
  by (auto simp: orElse_def throws_def)

lemma throws_truthy: "throws v \<Longrightarrow> Boolean_of v"
  by (cases v) (auto simp: throws_def Boolean_of_def split: json.splits elim: unconvertible.elims)

lemma migrateNode_isl: "isl (migrateNode env n) \<longleftrightarrow> nodeFails n"
proof (cases "n = JNull")
  case True
  then show ?thesis by (simp add: migrateNode_def nodeFails_def)
next
  case False
  let ?i = "Number_of env (field n ''id'')"
  let ?l = "String_of env (orElse (field n ''label'') (Json (JString [])))"
  let ?x = "Number_of env (field n ''x'')"
  let ?y = "Number_of env (field n ''y'')"
  let ?w = "Number_of env (orElse (field n ''w'') (Json (JNumber (Num BASE_W))))"
  let ?h = "Number_of env (orElse (field n ''h'') (Json (JNumber (Num BASE_H))))"
  have d: "\<not> throws (Json (JString []))" "\<not> throws (Json (JNumber (Num BASE_W)))"
    "\<not> throws (Json (JNumber (Num BASE_H)))"
    by (simp_all add: throws_def)
  have f: "nodeFails n \<longleftrightarrow> isl ?i \<or> isl ?l \<or> isl ?x \<or> isl ?y \<or> isl ?w \<or> isl ?h"
    using False
    by (simp add: nodeFails_def Number_of_isl String_of_isl throws_orElse[OF d(1)]
          throws_orElse[OF d(2)] throws_orElse[OF d(3)])
  have "isl (migrateNode env n) \<longleftrightarrow> isl ?i \<or> isl ?l \<or> isl ?x \<or> isl ?y \<or> isl ?w \<or> isl ?h"
    unfolding migrateNode_def using False
    by (cases ?i; cases ?l; cases ?x; cases ?y; cases ?w; cases ?h) simp_all
  with f show ?thesis by simp
qed

lemma migrateEdge_isl: "isl (migrateEdge env e) \<longleftrightarrow> edgeFails e"
proof (cases "e = JNull")
  case True
  then show ?thesis by (simp add: migrateEdge_def edgeFails_def)
next
  case False
  let ?i = "Number_of env (field e ''id'')"
  let ?s = "Number_of env (field e ''source'')"
  let ?t = "Number_of env (field e ''target'')"
  let ?l = "String_of env (field e ''label'')"
  have l: "isl ?l \<longleftrightarrow> Boolean_of (field e ''label'') \<and> isl ?l"
    using throws_truthy[of "field e ''label''"] by (auto simp: String_of_isl)
  have f: "edgeFails e \<longleftrightarrow> isl ?i \<or> isl ?s \<or> isl ?t \<or> isl ?l"
    using False by (simp add: edgeFails_def Number_of_isl String_of_isl)
  have "isl (migrateEdge env e) \<longleftrightarrow>
        isl ?i \<or> isl ?s \<or> isl ?t \<or> (Boolean_of (field e ''label'') \<and> isl ?l)"
    unfolding migrateEdge_def using False
    by (cases ?i; cases ?s; cases ?t; cases ?l) simp_all
  with f l show ?thesis by blast
qed

lemma load_ignored:
  "raw = None \<or> raw = Some [] \<Longrightarrow> loadPersisted env parse raw st = st"
  "raw = Some r \<Longrightarrow> parse r = None \<Longrightarrow> loadPersisted env parse raw st = st"
  "raw = Some r \<Longrightarrow> parse r = Some d \<Longrightarrow>
     \<not> (\<exists>ns es. optField d ''nodes'' = Json (JArray ns) \<and> optField d ''edges'' = Json (JArray es)) \<Longrightarrow>
     loadPersisted env parse raw st = st"
    apply (auto simp: loadPersisted_def)[1]
   apply (simp add: loadPersisted_def)
  apply (auto simp: loadPersisted_def split: jsval.splits json.splits)
  done

lemma load_arrays:
  assumes "raw = Some r" "r \<noteq> []" "parse r = Some d"
    "optField d ''nodes'' = Json (JArray ns)" "optField d ''edges'' = Json (JArray es)"
  shows "list_ex nodeFails ns \<or> list_ex edgeFails es \<Longrightarrow> loadPersisted env parse raw st = st"
    and "\<not> (list_ex nodeFails ns \<or> list_ex edgeFails es) \<Longrightarrow>
         \<exists>ms mes. loadPersisted env parse raw st = (ms, mes)
           \<and> mapE (migrateNode env) ns = Inr ms \<and> mapE (migrateEdge env) es = Inr mes"
proof -
  have n: "isl (mapE (migrateNode env) ns) \<longleftrightarrow> list_ex nodeFails ns"
    by (simp add: mapE_isl migrateNode_isl)
  have e: "isl (mapE (migrateEdge env) es) \<longleftrightarrow> list_ex edgeFails es"
    by (simp add: mapE_isl migrateEdge_isl)
  {
    assume "list_ex nodeFails ns \<or> list_ex edgeFails es"
    then have "isl (mapE (migrateNode env) ns) \<or> isl (mapE (migrateEdge env) es)"
      using n e by simp
    then show "loadPersisted env parse raw st = st"
      using assms
      by (cases "mapE (migrateNode env) ns"; cases "mapE (migrateEdge env) es")
         (simp_all add: loadPersisted_def)
  }
  {
    assume "\<not> (list_ex nodeFails ns \<or> list_ex edgeFails es)"
    then have "\<not> isl (mapE (migrateNode env) ns)" "\<not> isl (mapE (migrateEdge env) es)"
      using n e by simp_all
    then show "\<exists>ms mes. loadPersisted env parse raw st = (ms, mes)
           \<and> mapE (migrateNode env) ns = Inr ms \<and> mapE (migrateEdge env) es = Inr mes"
      using assms
      by (cases "mapE (migrateNode env) ns"; cases "mapE (migrateEdge env) es")
         (simp_all add: loadPersisted_def)
  }
qed

lemma Number_of_absent_default:
  "Number_of env (orElse v (Json (JNumber (Num c)))) =
     (if absent v then Inr (Num c) else Number_of env v)"
  by (simp add: orElse_def absent_def Number_of_def)

lemma String_of_absent_default:
  "String_of env (orElse v (Json (JString []))) =
     (if absent v then Inr [] else String_of env v)"
  by (simp add: orElse_def absent_def String_of_def)

lemma migrateNode_defaults:
  assumes "\<not> nodeFails n"
  shows "\<exists>m. migrateNode env n = Inr m
     \<and> Number_of env (field n ''id'') = Inr (ld_id m)
     \<and> Number_of env (field n ''x'') = Inr (ld_x m)
     \<and> Number_of env (field n ''y'') = Inr (ld_y m)
     \<and> ld_bold m = Boolean_of (field n ''bold'')
     \<and> ld_fillColor m = field n ''fillColor''
     \<and> (if absent (field n ''label'') then ld_label m = []
         else String_of env (field n ''label'') = Inr (ld_label m))
     \<and> (if absent (field n ''w'') then ld_w m = Num 120
         else Number_of env (field n ''w'') = Inr (ld_w m))
     \<and> (if absent (field n ''h'') then ld_h m = Num 64
         else Number_of env (field n ''h'') = Inr (ld_h m))
     \<and> (if absent (field n ''strokeColor'') then ld_strokeColor m = Json (JString (str ''#333''))
         else ld_strokeColor m = field n ''strokeColor'')
     \<and> (if absent (field n ''bold'') then ld_bold m = False else True)"
proof -
  have nn: "n \<noteq> JNull" using assms by (auto simp: nodeFails_def)
  have "\<not> isl (migrateNode env n)" using assms by (simp add: migrateNode_isl)
  then obtain m where m: "migrateNode env n = Inr m" by (cases "migrateNode env n") simp_all
  then have c: "thenE (Number_of env (field n ''id'')) (\<lambda>i.
        thenE (String_of env (orElse (field n ''label'') (Json (JString [])))) (\<lambda>l.
        thenE (Number_of env (field n ''x'')) (\<lambda>x.
        thenE (Number_of env (field n ''y'')) (\<lambda>y.
        thenE (Number_of env (orElse (field n ''w'') (Json (JNumber (Num BASE_W))))) (\<lambda>w.
        thenE (Number_of env (orElse (field n ''h'') (Json (JNumber (Num BASE_H))))) (\<lambda>h.
          Inr \<lparr>ld_id = i, ld_label = l, ld_x = x, ld_y = y, ld_w = w, ld_h = h,
                ld_strokeColor = orElse (field n ''strokeColor'') (Json (JString (str ''#333''))),
                ld_fillColor = field n ''fillColor'',
                ld_bold = Boolean_of (field n ''bold'')\<rparr>)))))) = Inr m"
    using nn by (simp add: migrateNode_def)
  then obtain i l x y w h where
    v: "Number_of env (field n ''id'') = Inr i"
       "String_of env (orElse (field n ''label'') (Json (JString []))) = Inr l"
       "Number_of env (field n ''x'') = Inr x"
       "Number_of env (field n ''y'') = Inr y"
       "Number_of env (orElse (field n ''w'') (Json (JNumber (Num BASE_W)))) = Inr w"
       "Number_of env (orElse (field n ''h'') (Json (JNumber (Num BASE_H)))) = Inr h"
       "m = \<lparr>ld_id = i, ld_label = l, ld_x = x, ld_y = y, ld_w = w, ld_h = h,
                ld_strokeColor = orElse (field n ''strokeColor'') (Json (JString (str ''#333''))),
                ld_fillColor = field n ''fillColor'',
                ld_bold = Boolean_of (field n ''bold'')\<rparr>"
    by (auto simp: thenE_Inr)
  have b: "absent (field n ''bold'') \<Longrightarrow> \<not> Boolean_of (field n ''bold'')"
    by (auto simp: absent_def Boolean_of_def)
  have fm: "ld_id m = i" "ld_label m = l" "ld_x m = x" "ld_y m = y" "ld_w m = w" "ld_h m = h"
    "ld_strokeColor m = orElse (field n ''strokeColor'') (Json (JString (str ''#333'')))"
    "ld_fillColor m = field n ''fillColor''" "ld_bold m = Boolean_of (field n ''bold'')"
    by (simp_all add: v(7))
  show ?thesis
  proof (intro exI[of _ m] conjI)
    show "migrateNode env n = Inr m" by (rule m)
    show "Number_of env (field n ''id'') = Inr (ld_id m)" by (simp only: v(1) fm)
    show "Number_of env (field n ''x'') = Inr (ld_x m)" by (simp only: v(3) fm)
    show "Number_of env (field n ''y'') = Inr (ld_y m)" by (simp only: v(4) fm)
    show "ld_bold m = Boolean_of (field n ''bold'')" by (rule fm)
    show "ld_fillColor m = field n ''fillColor''" by (rule fm)
    show "if absent (field n ''label'') then ld_label m = []
          else String_of env (field n ''label'') = Inr (ld_label m)"
      using v(2) unfolding String_of_absent_default fm by (simp split: if_splits)
    show "if absent (field n ''w'') then ld_w m = Num 120
          else Number_of env (field n ''w'') = Inr (ld_w m)"
      using v(5) unfolding Number_of_absent_default fm BASE_W_def by (simp split: if_splits)
    show "if absent (field n ''h'') then ld_h m = Num 64
          else Number_of env (field n ''h'') = Inr (ld_h m)"
      using v(6) unfolding Number_of_absent_default fm BASE_H_def by (simp split: if_splits)
    show "if absent (field n ''strokeColor'') then ld_strokeColor m = Json (JString (str ''#333''))
          else ld_strokeColor m = field n ''strokeColor''"
      unfolding fm by (simp add: orElse_def absent_def)
    show "if absent (field n ''bold'') then ld_bold m = False else True"
      unfolding fm using b by simp
  qed
qed

lemma migrateEdge_defaults:
  assumes "\<not> edgeFails e"
  shows "\<exists>l. migrateEdge env e = Inr l
     \<and> Number_of env (field e ''id'') = Inr (lk_id l)
     \<and> Number_of env (field e ''source'') = Inr (lk_source l)
     \<and> Number_of env (field e ''target'') = Inr (lk_target l)
     \<and> lk_dashed l = Boolean_of (field e ''dashed'')
     \<and> (if Boolean_of (field e ''label'')
         then \<exists>t. lk_label l = Some t \<and> String_of env (field e ''label'') = Inr t
         else lk_label l = None)
     \<and> (if absent (field e ''dashed'') then lk_dashed l = False else True)"
proof -
  have nn: "e \<noteq> JNull" using assms by (auto simp: edgeFails_def)
  have "\<not> isl (migrateEdge env e)" using assms by (simp add: migrateEdge_isl)
  then obtain l where l: "migrateEdge env e = Inr l" by (cases "migrateEdge env e") simp_all
  then have c: "thenE (Number_of env (field e ''id'')) (\<lambda>i.
        thenE (Number_of env (field e ''source'')) (\<lambda>s.
        thenE (Number_of env (field e ''target'')) (\<lambda>t.
        thenE (if Boolean_of (field e ''label'')
               then thenE (String_of env (field e ''label'')) (\<lambda>l. Inr (Some l))
               else Inr None) (\<lambda>l.
          Inr \<lparr>lk_id = i, lk_source = s, lk_target = t, lk_label = l,
                lk_dashed = Boolean_of (field e ''dashed'')\<rparr>)))) = Inr l"
    using nn by (simp add: migrateEdge_def)
  then obtain i s t lb where
    v: "Number_of env (field e ''id'') = Inr i"
       "Number_of env (field e ''source'') = Inr s"
       "Number_of env (field e ''target'') = Inr t"
       "(if Boolean_of (field e ''label'')
               then thenE (String_of env (field e ''label'')) (\<lambda>l. Inr (Some l))
               else Inr None) = Inr lb"
       "l = \<lparr>lk_id = i, lk_source = s, lk_target = t, lk_label = lb,
                lk_dashed = Boolean_of (field e ''dashed'')\<rparr>"
    by (auto simp: thenE_Inr)
  have b: "absent (field e ''dashed'') \<Longrightarrow> \<not> Boolean_of (field e ''dashed'')"
    by (auto simp: absent_def Boolean_of_def)
  have fe: "lk_id l = i" "lk_source l = s" "lk_target l = t" "lk_label l = lb"
    "lk_dashed l = Boolean_of (field e ''dashed'')"
    by (simp_all add: v(5))
  show ?thesis
  proof (intro exI[of _ l] conjI)
    show "migrateEdge env e = Inr l" by (rule l)
    show "Number_of env (field e ''id'') = Inr (lk_id l)" by (simp only: v(1) fe)
    show "Number_of env (field e ''source'') = Inr (lk_source l)" by (simp only: v(2) fe)
    show "Number_of env (field e ''target'') = Inr (lk_target l)" by (simp only: v(3) fe)
    show "lk_dashed l = Boolean_of (field e ''dashed'')" by (rule fe)
    show "if Boolean_of (field e ''label'')
          then \<exists>t. lk_label l = Some t \<and> String_of env (field e ''label'') = Inr t
          else lk_label l = None"
      using v(4) unfolding fe by (auto simp: thenE_Inr split: if_splits)
    show "if absent (field e ''dashed'') then lk_dashed l = False else True"
      unfolding fe using b by simp
  qed
qed

text \<open>
  Claim C9, as the code has it. Loading always ends with a state. A missing or empty
  blob, one that does not parse, and one whose \<open>nodes\<close> and \<open>edges\<close> are not both
  arrays leave the state untouched; so does one with an array element that is \<open>null\<close>
  (reading its fields throws inside the \<open>try\<close>) or in which a property passed to
  \<open>Number\<close> or \<open>String\<close> cannot be converted: it is an object with an own property
  named \<open>toString\<close>, or an array holding such an object at any depth, and the
  conversion throws a \<open>TypeError\<close>. Otherwise both arrays are replaced, element by
  element, by their migrated forms: \<open>id\<close>, \<open>x\<close>, \<open>y\<close>, \<open>w\<close>, \<open>h\<close>, \<open>source\<close> and
  \<open>target\<close> pass through \<open>Number\<close>, \<open>label\<close> through \<open>String\<close>, \<open>bold\<close> and
  \<open>dashed\<close> through \<open>Boolean\<close>; a missing or \<open>null\<close> label becomes the empty string,
  a missing \<open>w\<close> or \<open>h\<close> 120 or 64, a missing \<open>strokeColor\<close> \<open>#333\<close>, a missing
  \<open>bold\<close> or \<open>dashed\<close> false, and an edge label that is not truthy is dropped. A
  \<open>strokeColor\<close> that is present is kept as it was parsed, and so is \<open>fillColor\<close>.
\<close>

theorem load_never_fails:
  "(raw = None \<or> raw = Some [] \<longrightarrow> loadPersisted env parse raw st = st)
   \<and> (raw = Some r \<and> parse r = None \<longrightarrow> loadPersisted env parse raw st = st)
   \<and> (raw = Some r \<and> parse r = Some d
        \<and> \<not> (\<exists>ns es. optField d ''nodes'' = Json (JArray ns) \<and> optField d ''edges'' = Json (JArray es))
        \<longrightarrow> loadPersisted env parse raw st = st)
   \<and> (raw = Some r \<and> r \<noteq> [] \<and> parse r = Some d
        \<and> optField d ''nodes'' = Json (JArray ns) \<and> optField d ''edges'' = Json (JArray es)
        \<longrightarrow> (if list_ex nodeFails ns \<or> list_ex edgeFails es
             then loadPersisted env parse raw st = st
             else \<exists>ms mes. loadPersisted env parse raw st = (ms, mes)
                    \<and> length ms = length ns \<and> length mes = length es
                    \<and> (\<forall>i<length ns. migrateNode env (ns ! i) = Inr (ms ! i))
                    \<and> (\<forall>i<length es. migrateEdge env (es ! i) = Inr (mes ! i))))
   \<and> (isl (migrateNode env n) \<longleftrightarrow> nodeFails n)
   \<and> (isl (migrateEdge env e) \<longleftrightarrow> edgeFails e)
   \<and> (isl (Number_of env v) \<longleftrightarrow> throws v)
   \<and> (isl (String_of env v) \<longleftrightarrow> throws v)
   \<and> (throws v \<longleftrightarrow> (\<exists>j. v = Json j \<and> unconvertible j))
   \<and> (\<not> nodeFails n \<longrightarrow>
        (\<exists>m. migrateNode env n = Inr m
           \<and> Number_of env (field n ''id'') = Inr (ld_id m)
           \<and> Number_of env (field n ''x'') = Inr (ld_x m)
           \<and> Number_of env (field n ''y'') = Inr (ld_y m)
           \<and> ld_bold m = Boolean_of (field n ''bold'')
           \<and> ld_fillColor m = field n ''fillColor''
           \<and> (if absent (field n ''label'') then ld_label m = []
               else String_of env (field n ''label'') = Inr (ld_label m))
           \<and> (if absent (field n ''w'') then ld_w m = Num 120
               else Number_of env (field n ''w'') = Inr (ld_w m))
           \<and> (if absent (field n ''h'') then ld_h m = Num 64
               else Number_of env (field n ''h'') = Inr (ld_h m))
           \<and> (if absent (field n ''strokeColor'')
               then ld_strokeColor m = Json (JString (str ''#333''))
               else ld_strokeColor m = field n ''strokeColor'')
           \<and> (if absent (field n ''bold'') then ld_bold m = False else True)))
   \<and> (\<not> edgeFails e \<longrightarrow>
        (\<exists>l. migrateEdge env e = Inr l
           \<and> Number_of env (field e ''id'') = Inr (lk_id l)
           \<and> Number_of env (field e ''source'') = Inr (lk_source l)
           \<and> Number_of env (field e ''target'') = Inr (lk_target l)
           \<and> lk_dashed l = Boolean_of (field e ''dashed'')
           \<and> (if Boolean_of (field e ''label'')
               then \<exists>t. lk_label l = Some t \<and> String_of env (field e ''label'') = Inr t
               else lk_label l = None)
           \<and> (if absent (field e ''dashed'') then lk_dashed l = False else True)))"
proof (intro conjI impI)
  assume "raw = None \<or> raw = Some []"
  then show "loadPersisted env parse raw st = st" by (rule load_ignored(1))
next
  assume "raw = Some r \<and> parse r = None"
  then show "loadPersisted env parse raw st = st" by (auto intro: load_ignored(2))
next
  assume "raw = Some r \<and> parse r = Some d
        \<and> \<not> (\<exists>ns es. optField d ''nodes'' = Json (JArray ns) \<and> optField d ''edges'' = Json (JArray es))"
  then show "loadPersisted env parse raw st = st" using load_ignored(3)[of raw r parse d] by blast
next
  assume a: "raw = Some r \<and> r \<noteq> [] \<and> parse r = Some d
        \<and> optField d ''nodes'' = Json (JArray ns) \<and> optField d ''edges'' = Json (JArray es)"
  then have p: "raw = Some r" "r \<noteq> []" "parse r = Some d"
    "optField d ''nodes'' = Json (JArray ns)" "optField d ''edges'' = Json (JArray es)"
    by simp_all
  show "if list_ex nodeFails ns \<or> list_ex edgeFails es
        then loadPersisted env parse raw st = st
        else \<exists>ms mes. loadPersisted env parse raw st = (ms, mes)
               \<and> length ms = length ns \<and> length mes = length es
               \<and> (\<forall>i<length ns. migrateNode env (ns ! i) = Inr (ms ! i))
               \<and> (\<forall>i<length es. migrateEdge env (es ! i) = Inr (mes ! i))"
  proof (cases "list_ex nodeFails ns \<or> list_ex edgeFails es")
    case True
    then show ?thesis using load_arrays(1)[of raw r parse d ns es env st] p by simp
  next
    case False
    from load_arrays(2)[of raw r parse d ns es env st] p False obtain ms mes where
      "loadPersisted env parse raw st = (ms, mes)"
      "mapE (migrateNode env) ns = Inr ms" "mapE (migrateEdge env) es = Inr mes"
      by blast
    then show ?thesis using False by (auto simp: mapE_Inr_iff)
  qed
next
  show "isl (migrateNode env n) \<longleftrightarrow> nodeFails n" by (rule migrateNode_isl)
  show "isl (migrateEdge env e) \<longleftrightarrow> edgeFails e" by (rule migrateEdge_isl)
  show "isl (Number_of env v) \<longleftrightarrow> throws v" by (rule Number_of_isl)
  show "isl (String_of env v) \<longleftrightarrow> throws v" by (rule String_of_isl)
  show "throws v \<longleftrightarrow> (\<exists>j. v = Json j \<and> unconvertible j)"
    by (cases v) (simp_all add: throws_def)
next
  assume "\<not> nodeFails n"
  then show "\<exists>m. migrateNode env n = Inr m
           \<and> Number_of env (field n ''id'') = Inr (ld_id m)
           \<and> Number_of env (field n ''x'') = Inr (ld_x m)
           \<and> Number_of env (field n ''y'') = Inr (ld_y m)
           \<and> ld_bold m = Boolean_of (field n ''bold'')
           \<and> ld_fillColor m = field n ''fillColor''
           \<and> (if absent (field n ''label'') then ld_label m = []
               else String_of env (field n ''label'') = Inr (ld_label m))
           \<and> (if absent (field n ''w'') then ld_w m = Num 120
               else Number_of env (field n ''w'') = Inr (ld_w m))
           \<and> (if absent (field n ''h'') then ld_h m = Num 64
               else Number_of env (field n ''h'') = Inr (ld_h m))
           \<and> (if absent (field n ''strokeColor'')
               then ld_strokeColor m = Json (JString (str ''#333''))
               else ld_strokeColor m = field n ''strokeColor'')
           \<and> (if absent (field n ''bold'') then ld_bold m = False else True)"
    by (rule migrateNode_defaults)
next
  assume "\<not> edgeFails e"
  then show "\<exists>l. migrateEdge env e = Inr l
           \<and> Number_of env (field e ''id'') = Inr (lk_id l)
           \<and> Number_of env (field e ''source'') = Inr (lk_source l)
           \<and> Number_of env (field e ''target'') = Inr (lk_target l)
           \<and> lk_dashed l = Boolean_of (field e ''dashed'')
           \<and> (if Boolean_of (field e ''label'')
               then \<exists>t. lk_label l = Some t \<and> String_of env (field e ''label'') = Inr t
               else lk_label l = None)
           \<and> (if absent (field e ''dashed'') then lk_dashed l = False else True)"
    by (rule migrateEdge_defaults)
qed

text \<open>
  A stored node whose \<open>strokeColor\<close> is the number 5 is loaded with the number 5 as its
  stroke colour: that field has a default but no conversion to a string.
\<close>

theorem load_keeps_numeric_strokeColor:
  "loadPersisted sampleBuiltins (\<lambda>t. Some parsedSample) (Some rawSample) initialStored
     = ([\<lparr>ld_id = Num 1, ld_label = [], ld_x = NaN, ld_y = NaN, ld_w = Num 120, ld_h = Num 64,
          ld_strokeColor = Json (JNumber (Num 5)), ld_fillColor = Undefined, ld_bold = False\<rparr>], [])"
  by (simp add: loadPersisted_def rawSample_def str_def optField_def parsedSample_def migrateNode_def
        Number_of_def String_of_def Boolean_of_def orElse_def BASE_W_def BASE_H_def)

theorem load_never_fails_witness:
  "loadPersisted sampleBuiltins (\<lambda>t. Some parsedPlain) (Some rawPlain) initialStored
     = ([\<lparr>ld_id = Num 1, ld_label = [], ld_x = Num 0, ld_y = Num 0, ld_w = Num 120, ld_h = Num 64,
          ld_strokeColor = Json (JString (str ''#333'')), ld_fillColor = Undefined, ld_bold = False\<rparr>],
        [\<lparr>lk_id = Num 7, lk_source = Num 1, lk_target = Num 2, lk_label = None, lk_dashed = False\<rparr>])
   \<and> loadPersisted sampleBuiltins (\<lambda>t. None) (Some rawPlain) initialStored = initialStored
   \<and> loadPersisted sampleBuiltins (\<lambda>t. Some parsedPlain) None initialStored = initialStored
   \<and> loadPersisted sampleBuiltins (\<lambda>t. Some (JArray [])) (Some rawPlain) initialStored = initialStored
   \<and> loadPersisted sampleBuiltins
        (\<lambda>t. Some (JObject [(''nodes'', JArray [JNull]), (''edges'', JArray [])]))
        (Some rawPlain) initialStored = initialStored
   \<and> loadPersisted sampleBuiltins (\<lambda>t. Some parsedShadowed) (Some rawShadowed) initialStored
       = initialStored
   \<and> Number_of sampleBuiltins (Json (JObject [(''toString'', JNull)])) = Inl TypeError"
proof -
  have nonempty: "rawPlain \<noteq> []" "rawShadowed \<noteq> []"
    by (simp_all add: rawPlain_def rawShadowed_def str_def)
  have arrays:
    "optField parsedPlain ''nodes''
       = Json (JArray [JObject [(''id'', JNumber (Num 1)), (''x'', JNumber (Num 0)), (''y'', JNumber (Num 0))]])"
    "optField parsedPlain ''edges''
       = Json (JArray [JObject [(''id'', JNumber (Num 7)), (''source'', JNumber (Num 1)),
                                (''target'', JNumber (Num 2))]])"
    by (simp_all add: optField_def parsedPlain_def)
  have first: "loadPersisted sampleBuiltins (\<lambda>t. Some parsedPlain) (Some rawPlain) initialStored
     = ([\<lparr>ld_id = Num 1, ld_label = [], ld_x = Num 0, ld_y = Num 0, ld_w = Num 120, ld_h = Num 64,
          ld_strokeColor = Json (JString (str ''#333'')), ld_fillColor = Undefined, ld_bold = False\<rparr>],
        [\<lparr>lk_id = Num 7, lk_source = Num 1, lk_target = Num 2, lk_label = None, lk_dashed = False\<rparr>])"
    using nonempty
    by (simp add: loadPersisted_def arrays migrateNode_def migrateEdge_def
          Number_of_def String_of_def Boolean_of_def orElse_def BASE_W_def BASE_H_def)
  have second: "loadPersisted sampleBuiltins (\<lambda>t. None) (Some rawPlain) initialStored = initialStored"
    using load_never_fails[of "Some rawPlain" sampleBuiltins "\<lambda>t. None" initialStored rawPlain]
    by simp
  have third: "loadPersisted sampleBuiltins (\<lambda>t. Some parsedPlain) None initialStored = initialStored"
    using load_never_fails[of None sampleBuiltins "\<lambda>t. Some parsedPlain" initialStored]
    by simp
  have fourth: "loadPersisted sampleBuiltins (\<lambda>t. Some (JArray [])) (Some rawPlain) initialStored
                  = initialStored"
    using load_never_fails[of "Some rawPlain" sampleBuiltins "\<lambda>t. Some (JArray [])" initialStored
            rawPlain "JArray []"]
    by (simp add: optField_def)
  have fifth: "loadPersisted sampleBuiltins
        (\<lambda>t. Some (JObject [(''nodes'', JArray [JNull]), (''edges'', JArray [])]))
        (Some rawPlain) initialStored = initialStored"
    using load_never_fails[of "Some rawPlain" sampleBuiltins
            "\<lambda>t. Some (JObject [(''nodes'', JArray [JNull]), (''edges'', JArray [])])" initialStored
            rawPlain "JObject [(''nodes'', JArray [JNull]), (''edges'', JArray [])]" "[JNull]" "[]"]
      nonempty
    by (simp add: optField_def nodeFails_def)
  have sixth: "loadPersisted sampleBuiltins (\<lambda>t. Some parsedShadowed) (Some rawShadowed) initialStored
       = initialStored"
    using load_never_fails[of "Some rawShadowed" sampleBuiltins
            "\<lambda>t. Some parsedShadowed" initialStored
            rawShadowed parsedShadowed "[JObject [(''id'', JObject [(''toString'', JNull)])]]" "[]"]
      nonempty
    by (simp add: optField_def parsedShadowed_def nodeFails_def throws_def)
  have seventh: "Number_of sampleBuiltins (Json (JObject [(''toString'', JNull)])) = Inl TypeError"
    by (simp add: Number_of_def)
  from first second third fourth fifth sixth seventh show ?thesis by simp
qed

end
